theory Spec2Isabelle
  imports Main "HOL-Library.Sublist" "HOL-Library.Multiset" "HOL-Library.Word"
begin

section \<open>The Go library functions which.go calls\<close>

text \<open>
  The package is modelled for a unix build of Go: \<^verbatim>\<open>os.PathSeparator\<close> is \<open>/\<close>, a path has no
  volume name, and \<^verbatim>\<open>filepath.FromSlash\<close> and \<^verbatim>\<open>filepath.ToSlash\<close> return their argument.
  A Go string is a byte sequence, here a \<^typ>\<open>string\<close>. An index result of \<open>-1\<close> is \<open>None\<close>.
\<close>

subsection \<open>Package strings\<close>

fun Index :: "string \<Rightarrow> string \<Rightarrow> nat option" where
  "Index [] sub = (if sub = [] then Some 0 else None)"
| "Index (c # cs) sub =
     (if prefix sub (c # cs) then Some 0 else map_option Suc (Index cs sub))"

definition Contains :: "string \<Rightarrow> string \<Rightarrow> bool" where
  "Contains s sub = (Index s sub \<noteq> None)"

fun LastIndex :: "string \<Rightarrow> string \<Rightarrow> nat option" where
  "LastIndex [] sub = (if sub = [] then Some 0 else None)"
| "LastIndex (c # cs) sub =
     (case LastIndex cs sub of
        Some i \<Rightarrow> Some (Suc i)
      | None \<Rightarrow> if prefix sub (c # cs) then Some 0 else None)"

fun IndexRune :: "string \<Rightarrow> char \<Rightarrow> nat option" where
  "IndexRune [] b = None"
| "IndexRune (c # cs) b = (if c = b then Some 0 else map_option Suc (IndexRune cs b))"

fun LastIndexByte :: "string \<Rightarrow> char \<Rightarrow> nat option" where
  "LastIndexByte [] b = None"
| "LastIndexByte (c # cs) b =
     (case LastIndexByte cs b of
        Some i \<Rightarrow> Some (Suc i)
      | None \<Rightarrow> if c = b then Some 0 else None)"

definition HasPrefix :: "string \<Rightarrow> string \<Rightarrow> bool" where
  "HasPrefix s p = prefix p s"

definition TrimSuffix :: "string \<Rightarrow> string \<Rightarrow> string" where
  "TrimSuffix s suf = (if suffix suf s then take (length s - length suf) s else s)"

text \<open>\<^verbatim>\<open>strings.Split\<close> at a one-byte separator; the empty string splits into one empty field.\<close>

fun Split :: "string \<Rightarrow> char \<Rightarrow> string list" where
  "Split [] sep = [[]]"
| "Split (c # cs) sep =
     (if c = sep then [] # Split cs sep
      else (case Split cs sep of [] \<Rightarrow> [[c]] | e # es \<Rightarrow> (c # e) # es))"

text \<open>\<^verbatim>\<open>strings.Join(elems, "/")\<close>.\<close>

fun join_sep :: "string list \<Rightarrow> string" where
  "join_sep [] = []"
| "join_sep [e] = e"
| "join_sep (e # es) = e @ CHR ''/'' # join_sep es"

subsection \<open>Package path/filepath\<close>

text \<open>
  \<^verbatim>\<open>filepath.Clean\<close> reads the path element by element and keeps the elements of the result in
  a buffer, here the list \<open>out\<close> with the last element first. An empty element and \<open>.\<close> are
  dropped. \<open>..\<close> removes the element before it when there is one that is not itself \<open>..\<close>;
  otherwise it is dropped in a rooted path and kept in a relative one. A path that cleans
  to nothing is \<open>.\<close>.
\<close>

fun clean_elem :: "bool \<Rightarrow> string list \<Rightarrow> string \<Rightarrow> string list" where
  "clean_elem rooted out e =
     (if e = [] \<or> e = ''.'' then out
      else if e = ''..'' then
        (case out of
           [] \<Rightarrow> if rooted then [] else [''..'']
         | t # ts \<Rightarrow> if t = ''..'' then ''..'' # out else ts)
      else e # out)"

definition Clean :: "string \<Rightarrow> string" where
  "Clean path =
     (if path = [] then ''.''
      else let rooted = (hd path = CHR ''/'');
               out = foldl (clean_elem rooted) [] (Split path CHR ''/'')
           in if rooted then CHR ''/'' # join_sep (rev out)
              else if out = [] then ''.'' else join_sep (rev out))"

text \<open>\<^verbatim>\<open>filepath.Join\<close> skips leading empty elements, joins the rest and cleans the result.\<close>

fun Join :: "string list \<Rightarrow> string" where
  "Join [] = []"
| "Join (e # es) = (if e = [] then Join es else Clean (join_sep (e # es)))"

text \<open>\<^verbatim>\<open>filepath.Dir\<close>: everything up to and including the last separator, cleaned.\<close>

definition Dir :: "string \<Rightarrow> string" where
  "Dir path =
     (case LastIndexByte path CHR ''/'' of
        None \<Rightarrow> Clean []
      | Some i \<Rightarrow> Clean (take (Suc i) path))"

text \<open>\<^verbatim>\<open>filepath.Base\<close>: the last element, after trailing separators are stripped.\<close>

definition Base :: "string \<Rightarrow> string" where
  "Base path =
     (if path = [] then ''.''
      else let p = rev (dropWhile (\<lambda>c. c = CHR ''/'') (rev path));
               p' = (case LastIndexByte p CHR ''/'' of Some i \<Rightarrow> drop (Suc i) p | None \<Rightarrow> p)
           in if p' = [] then ''/'' else p')"

definition ToSlash :: "string \<Rightarrow> string" where
  "ToSlash path = path"

section \<open>which.go\<close>

subsection \<open>pathtomodule\<close>

definition pathtomodule :: "string \<Rightarrow> string" where
  "pathtomodule dir =
     (case LastIndexByte dir CHR ''@'' of
        None \<Rightarrow> dir
      | Some ati \<Rightarrow>
          (let versuf = drop ati dir in
           case IndexRune versuf CHR ''/'' of
             None \<Rightarrow> dir
           | Some tdir \<Rightarrow> Join [take ati dir, drop tdir versuf] @ take tdir versuf))"

subsection \<open>Data model\<close>

record PlatformType =
  GOOS :: string
  GOARCH :: string

text \<open>
  \<^verbatim>\<open>Exec.Type\<close> is a pointer to a \<^verbatim>\<open>PlatformType\<close>, and \<^verbatim>\<open>Import\<close> compares it with the
  package's pre-declared pointers by identity. A pointer is one of the eight pre-declared
  ones or a pointer to some other \<^verbatim>\<open>PlatformType\<close> value.
\<close>

datatype PlatformType_ptr =
    PlatformDarwin386
  | PlatformDarwinAMD64
  | PlatformFreeBSD386
  | PlatformFreeBSDAMD64
  | PlatformLinux386
  | PlatformLinuxAMD64
  | PlatformWindows386
  | PlatformWindowsAMD64
  | PlatformOther PlatformType

fun deref :: "PlatformType_ptr \<Rightarrow> PlatformType" where
  "deref PlatformDarwin386 = \<lparr>GOOS = ''darwin'', GOARCH = ''386''\<rparr>"
| "deref PlatformDarwinAMD64 = \<lparr>GOOS = ''darwin'', GOARCH = ''amd64''\<rparr>"
| "deref PlatformFreeBSD386 = \<lparr>GOOS = ''freebsd'', GOARCH = ''386''\<rparr>"
| "deref PlatformFreeBSDAMD64 = \<lparr>GOOS = ''freebsd'', GOARCH = ''amd64''\<rparr>"
| "deref PlatformLinux386 = \<lparr>GOOS = ''linux'', GOARCH = ''386''\<rparr>"
| "deref PlatformLinuxAMD64 = \<lparr>GOOS = ''linux'', GOARCH = ''amd64''\<rparr>"
| "deref PlatformWindows386 = \<lparr>GOOS = ''windows'', GOARCH = ''386''\<rparr>"
| "deref PlatformWindowsAMD64 = \<lparr>GOOS = ''windows'', GOARCH = ''amd64''\<rparr>"
| "deref (PlatformOther typ) = typ"

text \<open>
  The part of \<^verbatim>\<open>gosym.Table\<close> that \<^verbatim>\<open>Import\<close> reads: the functions with the name of their
  symbol and their entry address, the map from source file to object (its keys with their
  values, in no particular order), and the answers of \<^verbatim>\<open>PCToLine\<close>: file, line and the
  enclosing function, which is \<open>None\<close> for Go's \<^verbatim>\<open>nil\<close>.
\<close>

record Func =
  Sym_Name :: string
  Entry :: "64 word"

record Obj =
  Obj_Funcs :: "Func list"

record Table =
  Funcs :: "Func list"
  Files :: "(string \<times> Obj) list"
  PCToLine :: "64 word \<Rightarrow> string \<times> int \<times> Func option"

record Exec =
  Path :: string
  Type :: PlatformType_ptr
  table :: Table

datatype error = ErrNotGoExec | ErrGuessFail

text \<open>\<^verbatim>\<open>gosym.Table.LookupFunc\<close>: the first function whose symbol has the name.\<close>

fun LookupFunc :: "Func list \<Rightarrow> string \<Rightarrow> Func option" where
  "LookupFunc [] name = None"
| "LookupFunc (f # fs) name = (if Sym_Name f = name then Some f else LookupFunc fs name)"

text \<open>
  What the package reads from its surroundings: \<^verbatim>\<open>runtime.GOROOT()\<close>, the same function's
  value while \<^verbatim>\<open>$GOROOT\<close> is cleared (\<open>None\<close> when \<^verbatim>\<open>os.Setenv\<close> failed in \<^verbatim>\<open>init\<close>),
  \<^verbatim>\<open>os.Getenv("GOPATH")\<close>, \<^verbatim>\<open>build.Default.GOPATH\<close>, and the file system as the symbolic link
  walk of \<^verbatim>\<open>filepath.EvalSymlinks\<close> sees it (\<open>None\<close> when the walk fails).
\<close>

record Env =
  GOROOT :: string
  GOROOT_FINAL :: "string option"
  GOPATH :: string
  Default_GOPATH :: string
  walkSymlinks :: "string \<Rightarrow> string option"

text \<open>\<^verbatim>\<open>filepath.EvalSymlinks\<close> calls \<^verbatim>\<open>Clean\<close> on the path the walk ends at.\<close>

definition EvalSymlinks :: "Env \<Rightarrow> string \<Rightarrow> string option" where
  "EvalSymlinks env path = map_option Clean (walkSymlinks env path)"

text \<open>
  A Go map with keys only (\<^verbatim>\<open>map[string]struct{}\<close>) is the list of its keys, without
  duplicates. A \<^verbatim>\<open>range\<close> statement visits the keys in an order of its own choosing, which may
  differ from one statement to the next: a \<open>range_order\<close> is the choice one statement makes.
\<close>

type_synonym range_order = "string list \<Rightarrow> string list"

definition permutes :: "range_order \<Rightarrow> bool" where
  "permutes r = (\<forall>ks. mset (r ks) = mset ks)"

subsection \<open>init and isfiltered\<close>

text \<open>The keys of \<^verbatim>\<open>filtered\<close> after \<^verbatim>\<open>init\<close> has run.\<close>

definition filtered :: "Env \<Rightarrow> string list" where
  "filtered env =
     [''/tmp/makerelease'', ''<autogenerated>'', ''c:/go/src'', ''/usr/local/go/src'',
      GOROOT env]
     @ (case GOROOT_FINAL env of Some g \<Rightarrow> [g] | None \<Rightarrow> [])"

fun isfiltered :: "string list \<Rightarrow> string \<Rightarrow> bool" where
  "isfiltered [] file = False"
| "isfiltered (f # fs) file = (if Contains file f then True else isfiltered fs file)"

subsection \<open>guesspkg\<close>

definition src :: string where
  "src = ''/src/''"

text \<open>
  The inner loop of \<^verbatim>\<open>guesspkg\<close> for one search string \<open>s\<close>, over the directories in the
  order they are visited. \<open>Inl\<close> is the \<^verbatim>\<open>return\<close> inside the loop, \<open>Inr\<close> the values of
  \<^verbatim>\<open>pkg\<close> and \<^verbatim>\<open>unique\<close> when the loop ends.
\<close>

fun guesspkg_range ::
  "string \<Rightarrow> string list \<Rightarrow> string \<times> bool \<Rightarrow> (string \<times> bool) + (string \<times> bool)" where
  "guesspkg_range s [] (pkg, unique) = Inr (pkg, unique)"
| "guesspkg_range s (dir # dirs) (pkg, unique) =
     (if Contains dir s then
        (case LastIndex dir src of
           Some i \<Rightarrow>
             (let pkg' = drop (i + length src) dir in
              if unique then Inl (pkg', False)
              else guesspkg_range s dirs (pkg', True))
         | None \<Rightarrow> guesspkg_range s dirs (pkg, unique))
      else guesspkg_range s dirs (pkg, unique))"

text \<open>The outer loop, over the search strings, each with the visiting order of its inner loop.\<close>

fun guesspkg_search ::
  "(string \<times> string list) list \<Rightarrow> string \<times> bool \<Rightarrow> string \<times> bool" where
  "guesspkg_search [] (pkg, unique) = (pkg, unique)"
| "guesspkg_search ((s, dirs) # rest) (pkg, unique) =
     (case guesspkg_range s dirs (pkg, unique) of
        Inl r \<Rightarrow> r
      | Inr (pkg', unique') \<Rightarrow>
          if unique' then (pkg', unique') else guesspkg_search rest (pkg', unique'))"

text \<open>
  \<open>dirs1\<close> and \<open>dirs2\<close> are the keys of \<^verbatim>\<open>dirs\<close> in the order the first and the second run of
  the inner loop visit them. The deferred function applies \<^verbatim>\<open>ToSlash\<close> to the package returned.
\<close>

definition guesspkg :: "string \<Rightarrow> string list \<Rightarrow> string list \<Rightarrow> string \<times> bool" where
  "guesspkg name dirs1 dirs2 =
     (case guesspkg_search [(''cmd'' @ ''/'' @ name, dirs1), (name, dirs2)] ([], False) of
        (pkg, unique) \<Rightarrow> (ToSlash pkg, unique))"

subsection \<open>getgopath and genpkgpath\<close>

definition getgopath :: "Env \<Rightarrow> string list" where
  "getgopath env =
     (let gopath = (if GOPATH env = [] then Default_GOPATH env else GOPATH env)
      in Split gopath CHR '':'')"

definition mod_path :: string where
  "mod_path = ''/pkg/mod/''"

text \<open>
  The loop of \<^verbatim>\<open>genpkgpath\<close> over \<^verbatim>\<open>checkpaths\<close>; \<open>Some\<close> is the \<^verbatim>\<open>return\<close> inside the loop,
  \<open>None\<close> the end of the loop.
\<close>

fun genpkgpath_loop :: "Env \<Rightarrow> string \<Rightarrow> string list \<Rightarrow> string option" where
  "genpkgpath_loop env dir [] = None"
| "genpkgpath_loop env dir (path0 # checkpaths) =
     (let path = (case EvalSymlinks env path0 of Some abspath \<Rightarrow> abspath | None \<Rightarrow> path0);
          pth = path @ ''/''
      in if \<not> HasPrefix dir pth then genpkgpath_loop env dir checkpaths
         else
           (let spth = pth @ ''src'' @ ''/'' in
            if HasPrefix dir spth then Some (drop (length spth) dir)
            else
              (let mpth = Join [pth, ''pkg'', ''mod''] @ ''/'' in
               if HasPrefix dir mpth then Some (pathtomodule (drop (length mpth) dir))
               else genpkgpath_loop env dir checkpaths)))"

definition genpkgpath :: "Env \<Rightarrow> string \<Rightarrow> string \<Rightarrow> string \<times> error option" where
  "genpkgpath env name dir0 =
     (let checkpaths = [GOROOT env] @ getgopath env;
          dir = (case EvalSymlinks env dir0 of Some nd \<Rightarrow> nd | None \<Rightarrow> dir0)
      in case genpkgpath_loop env dir checkpaths of
           Some p \<Rightarrow> (p, None)
         | None \<Rightarrow>
             (case guesspkg name [dir] [dir] of
                (pkg, unique) \<Rightarrow>
                  if unique then (pkg, None)
                  else
                    (case LastIndex dir mod_path of
                       Some i \<Rightarrow> (pathtomodule (drop (i + length mod_path) dir), None)
                     | None \<Rightarrow> ([], Some ErrGuessFail))))"

subsection \<open>Exec.Import\<close>

text \<open>The fallback scan over \<^verbatim>\<open>ex.table.Files\<close>: the inner loop over the functions of one file.\<close>

fun import_funcs :: "string list \<Rightarrow> string \<Rightarrow> Func list \<Rightarrow> string list \<Rightarrow> string list" where
  "import_funcs flt file [] dirs = dirs"
| "import_funcs flt file (f # fs) dirs =
     import_funcs flt file fs
       (if Sym_Name f = ''main.main'' \<and> \<not> isfiltered flt file
        then List.insert (Dir file) dirs else dirs)"

fun import_files :: "string list \<Rightarrow> (string \<times> Obj) list \<Rightarrow> string list \<Rightarrow> string list" where
  "import_files flt [] dirs = dirs"
| "import_files flt ((file, obj) # files) dirs =
     import_files flt files (import_funcs flt file (Obj_Funcs obj) dirs)"

text \<open>
  \<open>Import_name\<close> is the first statements of \<^verbatim>\<open>Import\<close>, which compute \<^verbatim>\<open>name\<close>.
  \<open>r1\<close> and \<open>r2\<close> are the orders in which the two runs of the inner loop of \<^verbatim>\<open>guesspkg\<close>
  visit \<^verbatim>\<open>dirs\<close>. The result is the pair Go returns: the path and the error, \<open>None\<close> for \<^verbatim>\<open>nil\<close>.
\<close>

definition Import_name :: "Exec \<Rightarrow> string" where
  "Import_name ex =
     (let name = Base (Path ex)
      in if Type ex = PlatformWindows386 \<or> Type ex = PlatformWindowsAMD64
         then TrimSuffix name ''.exe'' else name)"

definition Import :: "Env \<Rightarrow> range_order \<Rightarrow> range_order \<Rightarrow> Exec \<Rightarrow> string \<times> error option" where
  "Import env r1 r2 ex =
     (let name = Import_name ex
      in case LookupFunc (Funcs (table ex)) ''main.main'' of
           None \<Rightarrow> ([], Some ErrGuessFail)
         | Some mainfn \<Rightarrow>
             (case PCToLine (table ex) (Entry mainfn) of
                (file, line, Some fn) \<Rightarrow> genpkgpath env name (Dir file)
              | (file, line, None) \<Rightarrow>
                  (let dirs = import_files (filtered env) (Files (table ex)) []
                   in case guesspkg name (r1 dirs) (r2 dirs) of
                        (pkg, unique) \<Rightarrow>
                          if unique \<and> pkg \<noteq> [] then (pkg, None)
                          else ([], Some ErrGuessFail))))"

section \<open>Notions used in the statements\<close>

subsection \<open>Paths\<close>

text \<open>
  A path after the canonicalisation \<open>genpkgpath\<close> applies to the directory and to every
  search root: the result of \<open>EvalSymlinks\<close>, or the path itself when that fails.
\<close>

definition canonical :: "Env \<Rightarrow> string \<Rightarrow> string" where
  "canonical env path = (case EvalSymlinks env path of Some p \<Rightarrow> p | None \<Rightarrow> path)"

text \<open>
  A directory lies under the source tree, or under the module cache, of a search root;
  directory and root are compared after canonicalisation.
\<close>

definition under_src :: "Env \<Rightarrow> string \<Rightarrow> string \<Rightarrow> bool" where
  "under_src env d root = prefix (canonical env root @ ''/src/'') d"

definition under_mod :: "Env \<Rightarrow> string \<Rightarrow> string \<Rightarrow> bool" where
  "under_mod env d root = prefix (canonical env root @ ''/pkg/mod/'') d"

text \<open>
  The shape every cleaned path has: it is not empty, and it ends in a separator only when
  it is the root.
\<close>

definition clean_shape :: "string \<Rightarrow> bool" where
  "clean_shape d = (d \<noteq> [] \<and> (last d = CHR ''/'' \<longrightarrow> d = ''/''))"

text \<open>
  The element buffer of \<open>Clean\<close> at any moment: no element is empty, contains a separator
  or is \<open>.\<close>; an element \<open>..\<close> occurs only in a relative path and only on top of other
  \<open>..\<close> elements. A cleaned path is one that renders such a buffer.
\<close>

fun stack_ok :: "bool \<Rightarrow> string list \<Rightarrow> bool" where
  "stack_ok rooted [] = True"
| "stack_ok rooted (e # out) =
     (e \<noteq> [] \<and> CHR ''/'' \<notin> set e \<and> e \<noteq> ''.''
      \<and> (e = ''..'' \<longrightarrow> \<not> rooted \<and> (\<forall>x \<in> set out. x = ''..''))
      \<and> stack_ok rooted out)"

definition render :: "bool \<Rightarrow> string list \<Rightarrow> string" where
  "render rooted out =
     (if rooted then CHR ''/'' # join_sep (rev out)
      else if out = [] then ''.'' else join_sep (rev out))"

definition cleaned :: "string \<Rightarrow> bool" where
  "cleaned d = (\<exists>rooted out. stack_ok rooted out \<and> d = render rooted out)"

subsection \<open>The fallback scan\<close>

text \<open>A (file, object) pair that the fallback scan takes a directory from.\<close>

definition scanned :: "string list \<Rightarrow> string \<times> Obj \<Rightarrow> bool" where
  "scanned flt fo =
     ((\<exists>f \<in> set (Obj_Funcs (snd fo)). Sym_Name f = ''main.main'') \<and> \<not> isfiltered flt (fst fo))"

text \<open>
  A directory counts for a search string in \<open>guesspkg\<close> when it contains the search string
  and contains \<open>/src/\<close>; the package it stands for is what follows its last \<open>/src/\<close>.
\<close>

definition candidate_match :: "string \<Rightarrow> string \<Rightarrow> bool" where
  "candidate_match s dir = (Contains dir s \<and> Contains dir src)"

definition src_tail :: "string \<Rightarrow> string" where
  "src_tail dir = (case LastIndex dir src of Some i \<Rightarrow> drop (i + length src) dir | None \<Rightarrow> [])"

text \<open>What one run of the inner loop makes of the directories that count, in visiting order.\<close>

fun range_outcome :: "string list \<Rightarrow> string \<Rightarrow> (string \<times> bool) + (string \<times> bool)" where
  "range_outcome [] pkg = Inr (pkg, False)"
| "range_outcome [d] pkg = Inr (src_tail d, True)"
| "range_outcome (d # d' # ms) pkg = Inl (src_tail d', False)"

section \<open>Example inputs\<close>

text \<open>
  Three environments. In each, every path exists and \<open>GOROOT\<close> is set. In \<open>env_root\<close> the
  only search root is \<open>/root\<close> and there are no symbolic links. In \<open>env_nested\<close> the second
  \<open>GOPATH\<close> entry lies in the source tree of the first. In \<open>env_link\<close> the directory
  \<open>/other/pkg\<close> is a symbolic link to \<open>/data/cache\<close>.
\<close>

definition env_root :: Env where
  "env_root =
     \<lparr>GOROOT = ''/root'', GOROOT_FINAL = Some ''/root'', GOPATH = ''/root'',
      Default_GOPATH = [], walkSymlinks = Some\<rparr>"

definition env_nested :: Env where
  "env_nested =
     \<lparr>GOROOT = ''/usr/local/go'', GOROOT_FINAL = Some ''/usr/local/go'',
      GOPATH = ''/home/u:/home/u/src/go'', Default_GOPATH = [], walkSymlinks = Some\<rparr>"

definition env_link :: Env where
  "env_link =
     \<lparr>GOROOT = ''/root'', GOROOT_FINAL = Some ''/root'', GOPATH = ''/root'', Default_GOPATH = [],
      walkSymlinks = (\<lambda>p. if p = ''/other/pkg/mod/example.com/foo@v2.0.0''
                          then Some ''/data/cache/mod/example.com/foo@v2.0.0'' else Some p)\<rparr>"

text \<open>A symbol table without a function \<open>main.main\<close>, and an object with one.\<close>

definition tbl_nomain :: Table where
  "tbl_nomain =
     \<lparr>Funcs = [\<lparr>Sym_Name = ''runtime.main'', Entry = 4096\<rparr>],
      Files = [(''/a/src/cmd/prog/main.go'',
                \<lparr>Obj_Funcs = [\<lparr>Sym_Name = ''main.main'', Entry = 8192\<rparr>]\<rparr>)],
      PCToLine = (\<lambda>pc. ([], 0, None))\<rparr>"

definition obj_main :: Obj where
  "obj_main =
     \<lparr>Obj_Funcs = [\<lparr>Sym_Name = ''main.init'', Entry = 4096\<rparr>,
                   \<lparr>Sym_Name = ''main.main'', Entry = 8192\<rparr>]\<rparr>"

text \<open>
  A symbol table whose line table has no function for the entry of \<open>main.main\<close>, so that
  \<open>Import\<close> falls back to the scan of the files; an executable named \<open>prog.exe\<close> of a given
  platform; executables named \<open>prog\<close> whose files, each with a function \<open>main.main\<close>, are
  given.
\<close>

definition tbl_fallback :: "(string \<times> Obj) list \<Rightarrow> Table" where
  "tbl_fallback files =
     \<lparr>Funcs = [\<lparr>Sym_Name = ''main.main'', Entry = 8192\<rparr>],
      Files = files,
      PCToLine = (\<lambda>pc. ([], 0, None))\<rparr>"

definition exe_prog :: "PlatformType_ptr \<Rightarrow> Exec" where
  "exe_prog typ =
     \<lparr>Path = ''/usr/bin/prog.exe'', Type = typ,
      table = tbl_fallback [(''/a/src/prog/main.go'', obj_main)]\<rparr>"

definition exe_files :: "string list \<Rightarrow> Exec" where
  "exe_files fs =
     \<lparr>Path = ''/usr/bin/prog'', Type = PlatformLinuxAMD64,
      table = tbl_fallback (map (\<lambda>f. (f, obj_main)) fs)\<rparr>"

text \<open>An executable whose line table resolves the entry of \<open>main.main\<close> to the given file.\<close>

definition exe_primary :: "string \<Rightarrow> Exec" where
  "exe_primary f =
     \<lparr>Path = ''/usr/bin/foo'', Type = PlatformLinuxAMD64,
      table = \<lparr>Funcs = [\<lparr>Sym_Name = ''main.main'', Entry = 8192\<rparr>],
               Files = [],
               PCToLine = (\<lambda>pc. if pc = 8192
                                then (f, 12, Some \<lparr>Sym_Name = ''main.main'', Entry = 8192\<rparr>)
                                else ([], 0, None))\<rparr>\<rparr>"

section \<open>Properties\<close>

subsection \<open>pathtomodule\<close>

lemma LastIndexByte_None_iff: "LastIndexByte s b = None \<longleftrightarrow> b \<notin> set s"
  by (induction s) (auto split: option.splits)

lemma LastIndexByte_append:
  "b \<notin> set v \<Longrightarrow> LastIndexByte (m @ b # v) b = Some (length m)"
  by (induction m) (auto simp: LastIndexByte_None_iff[THEN iffD2] split: option.splits)

lemma IndexRune_append:
  "b \<notin> set v \<Longrightarrow> IndexRune (v @ b # t) b = Some (length v)"
  by (induction v) auto

lemma pathtomodule_no_at: "CHR ''@'' \<notin> set dir \<Longrightarrow> pathtomodule dir = dir"
  by (simp add: pathtomodule_def LastIndexByte_None_iff[THEN iffD2])

lemma pathtomodule_at:
  assumes "CHR ''@'' \<notin> set v" "CHR ''/'' \<notin> set v" "CHR ''@'' \<notin> set t"
  shows "pathtomodule (m @ CHR ''@'' # v @ CHR ''/'' # t) = Join [m, CHR ''/'' # t] @ CHR ''@'' # v"
proof -
  have "CHR ''@'' \<notin> set (v @ CHR ''/'' # t)" using assms by simp
  then have ati: "LastIndexByte (m @ CHR ''@'' # v @ CHR ''/'' # t) CHR ''@'' = Some (length m)"
    by (rule LastIndexByte_append)
  have "CHR ''/'' \<notin> set (CHR ''@'' # v)" using assms by simp
  then have "IndexRune ((CHR ''@'' # v) @ CHR ''/'' # t) CHR ''/'' = Some (length (CHR ''@'' # v))"
    by (rule IndexRune_append)
  then have tdir: "IndexRune (CHR ''@'' # v @ CHR ''/'' # t) CHR ''/'' = Some (Suc (length v))"
    by simp
  show ?thesis
    unfolding pathtomodule_def ati by (simp add: tdir del: IndexRune.simps Join.simps)
qed

text \<open>
  C1: \<open>pathtomodule\<close> turns \<open>fred@v1.2.3/cmd/program\<close> into \<open>fred/cmd/program@v1.2.3\<close>, and
  returns every input without an \<open>@\<close> unchanged. In general the version suffix, from the
  last \<open>@\<close> to the next separator, is moved to the end of the joined (and cleaned) path.
\<close>

theorem pathtomodule_moves_version:
  "pathtomodule ''fred@v1.2.3/cmd/program'' = ''fred/cmd/program@v1.2.3''
   \<and> (\<forall>dir. CHR ''@'' \<notin> set dir \<longrightarrow> pathtomodule dir = dir)
   \<and> (\<forall>m v t. CHR ''@'' \<notin> set v \<and> CHR ''/'' \<notin> set v \<and> CHR ''@'' \<notin> set t \<longrightarrow>
         pathtomodule (m @ CHR ''@'' # v @ CHR ''/'' # t) = Join [m, CHR ''/'' # t] @ CHR ''@'' # v)"
proof (intro conjI allI impI)
  show "pathtomodule ''fred@v1.2.3/cmd/program'' = ''fred/cmd/program@v1.2.3''"
    by (simp add: pathtomodule_def Clean_def)
next
  fix dir assume "CHR ''@'' \<notin> set dir"
  then show "pathtomodule dir = dir" by (rule pathtomodule_no_at)
next
  fix m v t
  assume "CHR ''@'' \<notin> set v \<and> CHR ''/'' \<notin> set v \<and> CHR ''@'' \<notin> set t"
  then show "pathtomodule (m @ CHR ''@'' # v @ CHR ''/'' # t) = Join [m, CHR ''/'' # t] @ CHR ''@'' # v"
    by (simp add: pathtomodule_at)
qed


theorem pathtomodule_moves_version_witness:
  "CHR ''@'' \<notin> set ''example.com/foo/cmd/bar''
   \<and> pathtomodule ''example.com/foo/cmd/bar'' = ''example.com/foo/cmd/bar''
   \<and> CHR ''@'' \<notin> set ''v1.0.0'' \<and> CHR ''/'' \<notin> set ''v1.0.0'' \<and> CHR ''@'' \<notin> set ''cmd/bar''
   \<and> pathtomodule (''example.com/foo'' @ CHR ''@'' # ''v1.0.0'' @ CHR ''/'' # ''cmd/bar'')
       = ''example.com/foo/cmd/bar@v1.0.0''"
proof -
  have a: "CHR ''@'' \<notin> set ''example.com/foo/cmd/bar''" by simp
  have b: "CHR ''@'' \<notin> set ''v1.0.0'' \<and> CHR ''/'' \<notin> set ''v1.0.0'' \<and> CHR ''@'' \<notin> set ''cmd/bar''"
    by simp
  have j: "Join [''example.com/foo'', CHR ''/'' # ''cmd/bar''] = ''example.com/foo/cmd/bar''"
    by (simp add: Clean_def)
  have 1: "pathtomodule ''example.com/foo/cmd/bar'' = ''example.com/foo/cmd/bar''"
    using pathtomodule_moves_version[THEN conjunct2, THEN conjunct1, rule_format, OF a] .
  have 2: "pathtomodule (''example.com/foo'' @ CHR ''@'' # ''v1.0.0'' @ CHR ''/'' # ''cmd/bar'')
       = Join [''example.com/foo'', CHR ''/'' # ''cmd/bar''] @ CHR ''@'' # ''v1.0.0''"
    using pathtomodule_moves_version[THEN conjunct2, THEN conjunct2, rule_format, OF b] .
  have 3: "pathtomodule (''example.com/foo'' @ CHR ''@'' # ''v1.0.0'' @ CHR ''/'' # ''cmd/bar'')
       = ''example.com/foo/cmd/bar@v1.0.0''"
    unfolding 2 j by simp
  from a b 1 3 show ?thesis by (intro conjI) (erule conjunct1 conjunct2 | assumption | simp)+
qed

subsection \<open>Substrings\<close>

lemma Index_None_iff: "Index s sub = None \<longleftrightarrow> \<not> sublist sub s"
  by (induction s) (auto simp: sublist_Cons_right)

lemma Contains_iff: "Contains s sub \<longleftrightarrow> (\<exists>p q. s = p @ sub @ q)"
  by (simp add: Contains_def Index_None_iff sublist_def)

lemma LastIndex_None_iff: "LastIndex s sub = None \<longleftrightarrow> \<not> sublist sub s"
  by (induction s) (auto simp: sublist_Cons_right split: option.splits)

lemma LastIndex_Contains: "LastIndex s sub \<noteq> None \<longleftrightarrow> Contains s sub"
  by (simp add: Contains_def Index_None_iff LastIndex_None_iff)

lemma isfiltered_iff: "isfiltered flt file \<longleftrightarrow> (\<exists>f \<in> set flt. Contains file f)"
  by (induction flt) auto

subsection \<open>The primary strategy\<close>

lemma LookupFunc_None_iff:
  "LookupFunc fs name = None \<longleftrightarrow> (\<forall>f \<in> set fs. Sym_Name f \<noteq> name)"
  by (induction fs) auto

text \<open>
  C4: when no function of the symbol table is named \<open>main.main\<close>, \<open>Import\<close> returns the
  empty path with \<open>ErrGuessFail\<close>. The same holds whatever the file table, the line table, the
  environment and the visiting orders are: none of them is consulted.
\<close>

theorem Import_no_main:
  assumes "\<forall>f \<in> set (Funcs (table ex)). Sym_Name f \<noteq> ''main.main''"
  shows "Import env r1 r2 ex = ([], Some ErrGuessFail)
         \<and> Import env' r1' r2' (ex\<lparr>table := (table ex)\<lparr>Files := files', PCToLine := pctoline'\<rparr>\<rparr>)
             = ([], Some ErrGuessFail)"
proof -
  from assms have "LookupFunc (Funcs (table ex)) ''main.main'' = None"
    by (simp add: LookupFunc_None_iff)
  then show ?thesis
    by (simp add: Import_def)
qed

theorem Import_no_main_witness:
  "Import env_root id rev \<lparr>Path = ''/usr/bin/prog'', Type = PlatformLinuxAMD64, table = tbl_nomain\<rparr>
     = ([], Some ErrGuessFail)"
proof -
  have h: "\<forall>f \<in> set (Funcs (table \<lparr>Path = ''/usr/bin/prog'', Type = PlatformLinuxAMD64, table = tbl_nomain\<rparr>)).
             Sym_Name f \<noteq> ''main.main''"
    by (simp add: tbl_nomain_def)
  from Import_no_main[OF h, of env_root id rev] show ?thesis
    by (rule conjunct1)
qed

subsection \<open>The path filter\<close>

lemma import_funcs_filtered: "isfiltered flt file \<Longrightarrow> import_funcs flt file fs dirs = dirs"
  by (induction fs arbitrary: dirs) simp_all

lemma set_import_funcs_unfiltered:
  "\<not> isfiltered flt file \<Longrightarrow>
   set (import_funcs flt file fs dirs) =
     (if \<exists>f \<in> set fs. Sym_Name f = ''main.main'' then insert (Dir file) (set dirs) else set dirs)"
  by (induction fs arbitrary: dirs) (simp_all add: insert_absorb)

lemma set_import_funcs:
  "set (import_funcs flt file fs dirs) =
     (if (\<exists>f \<in> set fs. Sym_Name f = ''main.main'') \<and> \<not> isfiltered flt file
      then insert (Dir file) (set dirs) else set dirs)"
  by (cases "isfiltered flt file") (simp_all add: import_funcs_filtered set_import_funcs_unfiltered)

lemma set_import_files:
  "set (import_files flt files dirs) = set dirs \<union> (Dir \<circ> fst) ` {fo \<in> set files. scanned flt fo}"
proof (induction files arbitrary: dirs)
  case Nil
  then show ?case by simp
next
  case (Cons a files)
  obtain fl obj where a: "a = (fl, obj)" by (cases a)
  have "{fo \<in> set (a # files). scanned flt fo} =
        (if scanned flt a then insert a {fo \<in> set files. scanned flt fo} else {fo \<in> set files. scanned flt fo})"
    by auto
  then show ?case
    unfolding a import_files.simps Cons.IH set_import_funcs by (simp add: scanned_def)
qed

lemma distinct_import_funcs: "distinct dirs \<Longrightarrow> distinct (import_funcs flt file fs dirs)"
  by (induction fs arbitrary: dirs) simp_all

lemma distinct_import_files: "distinct dirs \<Longrightarrow> distinct (import_files flt files dirs)"
proof (induction files arbitrary: dirs)
  case Nil
  then show ?case by simp
next
  case (Cons a files)
  obtain fl obj where a: "a = (fl, obj)" by (cases a)
  show ?case unfolding a import_files.simps
    by (rule Cons.IH) (rule distinct_import_funcs, rule Cons.prems)
qed

lemma isfiltered_substring:
  "isfiltered flt file \<longleftrightarrow> (\<exists>frag \<in> set flt. \<exists>p q. file = p @ frag @ q)"
  unfolding isfiltered_iff Contains_iff ..

lemma mem_import_files:
  "d \<in> set (import_files flt files []) \<longleftrightarrow>
     (\<exists>fl obj. (fl, obj) \<in> set files \<and> d = Dir fl
        \<and> (\<exists>f \<in> set (Obj_Funcs obj). Sym_Name f = ''main.main'') \<and> \<not> isfiltered flt fl)"
  unfolding set_import_files scanned_def by force

text \<open>
  C7: a file whose path contains a filtered fragment as a substring is filtered, and a
  (file, function) pair of a filtered file leaves the candidate directories as they are.
  The candidate directories of the fallback scan are exactly the directories of the files
  that have a function named \<open>main.main\<close> and contain no filtered fragment.
\<close>

theorem filtered_file_contributes_nothing:
  "(\<forall>frag p q. frag \<in> set flt \<and> file = p @ frag @ q \<longrightarrow>
        isfiltered flt file \<and> import_funcs flt file fs dirs = dirs
        \<and> import_files flt ((file, obj) # files) dirs = import_files flt files dirs)
   \<and> (\<forall>d. d \<in> set (import_files flt files []) \<longleftrightarrow>
       (\<exists>file' obj'. (file', obj') \<in> set files \<and> d = Dir file'
          \<and> (\<exists>f \<in> set (Obj_Funcs obj'). Sym_Name f = ''main.main'')
          \<and> \<not> (\<exists>frag \<in> set flt. \<exists>p q. file' = p @ frag @ q)))"
proof (intro conjI allI impI)
  fix frag p q
  assume h: "frag \<in> set flt \<and> file = p @ frag @ q"
  then have "Contains file frag" by (auto simp: Contains_iff)
  with h show f: "isfiltered flt file" by (auto simp: isfiltered_iff)
  then show "import_funcs flt file fs dirs = dirs" by (rule import_funcs_filtered)
  from f show "import_files flt ((file, obj) # files) dirs = import_files flt files dirs"
    by (simp add: import_funcs_filtered)
next
  fix d
  show "d \<in> set (import_files flt files []) \<longleftrightarrow>
       (\<exists>file' obj'. (file', obj') \<in> set files \<and> d = Dir file'
          \<and> (\<exists>f \<in> set (Obj_Funcs obj'). Sym_Name f = ''main.main'')
          \<and> \<not> (\<exists>frag \<in> set flt. \<exists>p q. file' = p @ frag @ q))"
    unfolding mem_import_files isfiltered_substring ..
qed


theorem filtered_file_contributes_nothing_witness:
  "''/usr/local/go/src'' \<in> set (filtered env_root)
   \<and> ''/usr/local/go/src/runtime/proc.go'' = [] @ ''/usr/local/go/src'' @ ''/runtime/proc.go''
   \<and> isfiltered (filtered env_root) ''/usr/local/go/src/runtime/proc.go''
   \<and> import_files (filtered env_root)
        [(''/usr/local/go/src/runtime/proc.go'', obj_main), (''/home/u/src/cmd/prog/main.go'', obj_main)] []
       = [''/home/u/src/cmd/prog'']"
proof -
  have h1: "''/usr/local/go/src'' \<in> set (filtered env_root)"
    by (simp add: filtered_def)
  have h2: "''/usr/local/go/src/runtime/proc.go'' = [] @ ''/usr/local/go/src'' @ ''/runtime/proc.go''"
    by simp
  have e: "import_files (filtered env_root) [(''/home/u/src/cmd/prog/main.go'', obj_main)] []
       = [''/home/u/src/cmd/prog'']"
    by (simp add: filtered_def env_root_def obj_main_def Contains_def Dir_def Clean_def)
  note w = filtered_file_contributes_nothing[THEN conjunct1, rule_format, OF conjI[OF h1 h2],
       of "Obj_Funcs obj_main" "[]" obj_main "[(''/home/u/src/cmd/prog/main.go'', obj_main)]"]
  have 1: "isfiltered (filtered env_root) ''/usr/local/go/src/runtime/proc.go''"
    using w by (rule conjunct1)
  have 2: "import_files (filtered env_root)
        [(''/usr/local/go/src/runtime/proc.go'', obj_main), (''/home/u/src/cmd/prog/main.go'', obj_main)] []
       = [''/home/u/src/cmd/prog'']"
    using w[THEN conjunct2, THEN conjunct2] e by (rule trans)
  show ?thesis by (intro conjI; fact)
qed

subsection \<open>The name of the executable\<close>

lemma TrimSuffix_append: "TrimSuffix (b @ suf) suf = b"
  by (simp add: TrimSuffix_def suffix_def)

lemma TrimSuffix_other: "\<not> suffix suf s \<Longrightarrow> TrimSuffix s suf = s"
  by (simp add: TrimSuffix_def)

lemma exe_prog_name_linux: "Import_name (exe_prog PlatformLinuxAMD64) = ''prog.exe''"
  by (simp add: Import_name_def exe_prog_def Base_def)

lemma exe_prog_name_windows: "Import_name (exe_prog PlatformWindowsAMD64) = ''prog''"
  by (simp add: Import_name_def exe_prog_def Base_def TrimSuffix_def suffix_def)

lemma exe_prog_dirs:
  "import_files (filtered env_root) (Files (table (exe_prog typ))) [] = [''/a/src/prog'']"
  by (simp add: exe_prog_def tbl_fallback_def obj_main_def filtered_def env_root_def
      Contains_def Dir_def Clean_def)

lemma exe_prog_lookup:
  "LookupFunc (Funcs (table (exe_prog typ))) ''main.main'' = Some \<lparr>Sym_Name = ''main.main'', Entry = 8192\<rparr>"
  by (simp add: exe_prog_def tbl_fallback_def)

lemma exe_prog_pctoline: "PCToLine (table (exe_prog typ)) pc = ([], 0, None)"
  by (simp add: exe_prog_def tbl_fallback_def)

lemma guesspkg_prog: "guesspkg ''prog'' [''/a/src/prog''] [''/a/src/prog''] = (''prog'', True)"
  by (simp add: guesspkg_def Contains_def src_def ToSlash_def)

lemma guesspkg_prog_exe: "guesspkg ''prog.exe'' [''/a/src/prog''] [''/a/src/prog''] = ([], False)"
  by (simp add: guesspkg_def Contains_def src_def ToSlash_def)

lemma Import_exe_prog_windows: "Import env_root id rev (exe_prog PlatformWindowsAMD64) = (''prog'', None)"
  by (simp add: Import_def exe_prog_name_windows exe_prog_lookup exe_prog_pctoline exe_prog_dirs
      guesspkg_prog)

lemma Import_exe_prog_linux:
  "Import env_root id rev (exe_prog PlatformLinuxAMD64) = ([], Some ErrGuessFail)"
  by (simp add: Import_def exe_prog_name_linux exe_prog_lookup exe_prog_pctoline exe_prog_dirs
      guesspkg_prog_exe)

text \<open>
  C10: for the pre-declared Windows platforms the search key is the base name of the path
  without a trailing \<open>.exe\<close>; for every other platform it is the base name as it is. A
  binary named \<open>prog.exe\<close> is searched for as \<open>prog\<close> when it is a Windows binary and as
  \<open>prog.exe\<close> when it is a Linux binary, and the fallback scan of the same file table then
  finds the package in the first case and fails in the second.
\<close>

theorem Import_name_exe_suffix:
  "(Type ex = PlatformWindows386 \<or> Type ex = PlatformWindowsAMD64 \<longrightarrow>
      (\<forall>b. Base (Path ex) = b @ ''.exe'' \<longrightarrow> Import_name ex = b)
      \<and> (\<not> suffix ''.exe'' (Base (Path ex)) \<longrightarrow> Import_name ex = Base (Path ex)))
   \<and> (Type ex \<noteq> PlatformWindows386 \<and> Type ex \<noteq> PlatformWindowsAMD64 \<longrightarrow>
        Import_name ex = Base (Path ex))
   \<and> Import_name (exe_prog PlatformLinuxAMD64) = ''prog.exe''
   \<and> Import_name (exe_prog PlatformWindowsAMD64) = ''prog''
   \<and> Import env_root id rev (exe_prog PlatformLinuxAMD64) = ([], Some ErrGuessFail)
   \<and> Import env_root id rev (exe_prog PlatformWindowsAMD64) = (''prog'', None)"
proof (intro conjI impI allI)
  fix b
  assume "Type ex = PlatformWindows386 \<or> Type ex = PlatformWindowsAMD64"
    and "Base (Path ex) = b @ ''.exe''"
  then show "Import_name ex = b"
    by (simp add: Import_name_def TrimSuffix_append)
next
  assume "Type ex = PlatformWindows386 \<or> Type ex = PlatformWindowsAMD64"
    and "\<not> suffix ''.exe'' (Base (Path ex))"
  then show "Import_name ex = Base (Path ex)"
    by (simp add: Import_name_def TrimSuffix_other)
next
  assume "Type ex \<noteq> PlatformWindows386 \<and> Type ex \<noteq> PlatformWindowsAMD64"
  then show "Import_name ex = Base (Path ex)"
    by (simp add: Import_name_def)
qed (rule exe_prog_name_linux exe_prog_name_windows Import_exe_prog_linux Import_exe_prog_windows)+

theorem Import_name_exe_suffix_witness:
  "Import_name \<lparr>Path = ''/opt/tool.exe'', Type = PlatformWindows386, table = tbl_nomain\<rparr> = ''tool''
   \<and> Import_name \<lparr>Path = ''/opt/tool.exe'', Type = PlatformOther \<lparr>GOOS = ''windows'', GOARCH = ''arm64''\<rparr>,
        table = tbl_nomain\<rparr> = ''tool.exe''"
proof -
  let ?w = "\<lparr>Path = ''/opt/tool.exe'', Type = PlatformWindows386, table = tbl_nomain\<rparr>"
  let ?o = "\<lparr>Path = ''/opt/tool.exe'', Type = PlatformOther \<lparr>GOOS = ''windows'', GOARCH = ''arm64''\<rparr>,
        table = tbl_nomain\<rparr>"
  have t: "Type ?w = PlatformWindows386 \<or> Type ?w = PlatformWindowsAMD64" by simp
  have b: "Base (Path ?w) = ''tool'' @ ''.exe''" by (simp add: Base_def)
  have 1: "Import_name ?w = ''tool''"
    using Import_name_exe_suffix[of ?w, THEN conjunct1, rule_format, OF t, THEN conjunct1, rule_format, OF b] .
  have n: "Type ?o \<noteq> PlatformWindows386 \<and> Type ?o \<noteq> PlatformWindowsAMD64" by simp
  have "Import_name ?o = Base (Path ?o)"
    using Import_name_exe_suffix[of ?o, THEN conjunct2, THEN conjunct1, rule_format, OF n] .
  then have 2: "Import_name ?o = ''tool.exe''" by (simp add: Base_def)
  show ?thesis by (intro conjI; fact)
qed

subsection \<open>guesspkg\<close>

lemma guesspkg_range_match:
  "candidate_match s d \<Longrightarrow>
   guesspkg_range s (d # ds) (pkg, u) =
     (if u then Inl (src_tail d, False) else guesspkg_range s ds (src_tail d, True))"
  by (auto simp: candidate_match_def src_tail_def LastIndex_Contains[symmetric])

lemma guesspkg_range_no_match:
  "\<not> candidate_match s d \<Longrightarrow> guesspkg_range s (d # ds) (pkg, u) = guesspkg_range s ds (pkg, u)"
  by (auto simp: candidate_match_def LastIndex_Contains[symmetric] split: option.splits)

lemma guesspkg_range_filter:
  "guesspkg_range s ds (pkg, u) = guesspkg_range s (filter (candidate_match s) ds) (pkg, u)"
proof (induction ds arbitrary: pkg u)
  case Nil
  then show ?case by simp
next
  case (Cons d ds)
  show ?case
  proof (cases "candidate_match s d")
    case True
    then show ?thesis
      using Cons.IH[of "src_tail d" True] by (simp add: guesspkg_range_match del: guesspkg_range.simps(2))
  next
    case False
    then show ?thesis
      using Cons.IH[of pkg u] by (simp add: guesspkg_range_no_match del: guesspkg_range.simps(2))
  qed
qed

lemma guesspkg_range_all_match:
  assumes "\<forall>d \<in> set ms. candidate_match s d"
  shows "guesspkg_range s ms (pkg, False) = range_outcome ms pkg"
proof (cases ms)
  case Nil
  then show ?thesis by simp
next
  case (Cons d rest)
  with assms have d: "candidate_match s d" by simp
  show ?thesis
  proof (cases rest)
    case Nil
    with Cons d show ?thesis by (simp add: guesspkg_range_match del: guesspkg_range.simps(2))
  next
    case (Cons d' rest')
    with \<open>ms = d # rest\<close> assms have "candidate_match s d'" by simp
    with Cons \<open>ms = d # rest\<close> d show ?thesis
      by (simp add: guesspkg_range_match del: guesspkg_range.simps(2))
  qed
qed

lemma guesspkg_range_outcome:
  "guesspkg_range s ds (pkg, False) = range_outcome (filter (candidate_match s) ds) pkg"
proof -
  have "guesspkg_range s ds (pkg, False) = guesspkg_range s (filter (candidate_match s) ds) (pkg, False)"
    by (rule guesspkg_range_filter)
  also have "\<dots> = range_outcome (filter (candidate_match s) ds) pkg"
    by (rule guesspkg_range_all_match) simp
  finally show ?thesis .
qed


lemma guesspkg_outcome:
  "guesspkg name ds1 ds2 =
     (case range_outcome (filter (candidate_match (''cmd/'' @ name)) ds1) [] of
        Inl r \<Rightarrow> r
      | Inr (pkg, unique) \<Rightarrow>
          if unique then (pkg, unique)
          else (case range_outcome (filter (candidate_match name) ds2) pkg of
                  Inl r \<Rightarrow> r | Inr r \<Rightarrow> r))"
proof -
  have 1: "guesspkg_range (''cmd/'' @ name) ds1 ([], False)
           = range_outcome (filter (candidate_match (''cmd/'' @ name)) ds1) []"
    by (rule guesspkg_range_outcome)
  have 2: "\<And>pkg. guesspkg_range name ds2 (pkg, False)
           = range_outcome (filter (candidate_match name) ds2) pkg"
    by (rule guesspkg_range_outcome)
  have "guesspkg name ds1 ds2 =
     (case guesspkg_range (''cmd/'' @ name) ds1 ([], False) of
        Inl r \<Rightarrow> r
      | Inr (pkg, unique) \<Rightarrow>
          if unique then (pkg, unique)
          else (case guesspkg_range name ds2 (pkg, False) of
                  Inl r \<Rightarrow> r | Inr r \<Rightarrow> r))"
    by (simp add: guesspkg_def ToSlash_def split: sum.splits prod.splits)
  then show ?thesis
    unfolding 1 by (simp add: 2 split: sum.splits prod.splits)
qed

lemma range_outcome_more: "2 \<le> length ms \<Longrightarrow> \<exists>p. range_outcome ms pkg = Inl (p, False)"
  by (induction ms pkg rule: range_outcome.induct) simp_all

lemma range_outcome_nonempty:
  "ms \<noteq> [] \<Longrightarrow> (\<exists>p. range_outcome ms pkg = Inl (p, False)) \<or> (\<exists>p. range_outcome ms pkg = Inr (p, True))"
  by (induction ms pkg rule: range_outcome.induct) simp_all

lemma range_outcome_perm:
  assumes "mset ms = mset ms'"
  shows "range_outcome ms pkg = range_outcome ms' pkg
         \<or> (\<exists>p p'. range_outcome ms pkg = Inl (p, False) \<and> range_outcome ms' pkg = Inl (p', False))"
proof (cases "2 \<le> length ms")
  case True
  moreover from assms have "length ms' = length ms" by (metis size_mset)
  ultimately show ?thesis
    using range_outcome_more[of ms pkg] range_outcome_more[of ms' pkg] by auto
next
  case False
  then consider "ms = []" | d where "ms = [d]"
    by (cases ms; cases "tl ms") auto
  then show ?thesis
  proof cases
    case 1
    with assms have "ms' = []" by simp
    with 1 show ?thesis by simp
  next
    case 2
    with assms have "mset ms' = {#d#}" by simp
    then have "ms' = [d]" by (simp add: mset_single_iff_right)
    with 2 show ?thesis by simp
  qed
qed

lemma two_filtered:
  assumes "d1 \<in> set ds" "d2 \<in> set ds" "d1 \<noteq> d2" "P d1" "P d2"
  shows "2 \<le> length (filter P ds)"
proof -
  from assms have "{d1, d2} \<subseteq> set (filter P ds)" by simp
  then have "card {d1, d2} \<le> card (set (filter P ds))"
    by (intro card_mono) simp_all
  also have "\<dots> \<le> length (filter P ds)" by (rule card_length)
  finally show ?thesis using \<open>d1 \<noteq> d2\<close> by simp
qed

lemma guesspkg_ambiguous:
  assumes "d1 \<in> set ds1" "d2 \<in> set ds1" "d1 \<noteq> d2"
    and "candidate_match (''cmd/'' @ name) d1" "candidate_match (''cmd/'' @ name) d2"
  shows "snd (guesspkg name ds1 ds2) = False"
proof -
  from assms have "2 \<le> length (filter (candidate_match (''cmd/'' @ name)) ds1)"
    by (rule two_filtered)
  then obtain p where "range_outcome (filter (candidate_match (''cmd/'' @ name)) ds1) [] = Inl (p, False)"
    using range_outcome_more by blast
  then show ?thesis unfolding guesspkg_outcome by simp
qed

lemma guesspkg_first_decides:
  assumes "\<exists>d \<in> set ds1. candidate_match (''cmd/'' @ name) d"
  shows "guesspkg name ds1 ds2 = guesspkg name ds1 ds2'"
proof -
  from assms have "filter (candidate_match (''cmd/'' @ name)) ds1 \<noteq> []"
    by (simp add: filter_empty_conv)
  from range_outcome_nonempty[OF this, of "[]"] show ?thesis
    unfolding guesspkg_outcome by auto
qed

lemma guesspkg_first_none:
  assumes "\<forall>d \<in> set ds1. \<not> candidate_match (''cmd/'' @ name) d"
  shows "guesspkg name ds1 ds2 = guesspkg name [] ds2"
proof -
  from assms have "filter (candidate_match (''cmd/'' @ name)) ds1 = []"
    by (simp add: filter_empty_conv)
  then show ?thesis unfolding guesspkg_outcome by simp
qed

lemma guesspkg_perm:
  assumes "mset ds1 = mset ds1'" "mset ds2 = mset ds2'"
  shows "guesspkg name ds1 ds2 = guesspkg name ds1' ds2'
         \<or> (snd (guesspkg name ds1 ds2) = False \<and> snd (guesspkg name ds1' ds2') = False)"
proof -
  let ?m1 = "filter (candidate_match (''cmd/'' @ name)) ds1"
  let ?m1' = "filter (candidate_match (''cmd/'' @ name)) ds1'"
  let ?m2 = "filter (candidate_match name) ds2"
  let ?m2' = "filter (candidate_match name) ds2'"
  from assms have m1: "mset ?m1 = mset ?m1'" and m2: "mset ?m2 = mset ?m2'"
    by simp_all
  from range_outcome_perm[OF m1, of "[]"] show ?thesis
  proof
    assume eq: "range_outcome ?m1 [] = range_outcome ?m1' []"
    show ?thesis
    proof (cases "range_outcome ?m1' []")
      case (Inl r)
      with eq show ?thesis unfolding guesspkg_outcome by simp
    next
      case (Inr r)
      obtain pkg u where r: "r = (pkg, u)" by (cases r)
      from range_outcome_perm[OF m2, of pkg] Inr r eq show ?thesis
        unfolding guesspkg_outcome by auto
    qed
  next
    assume "\<exists>p p'. range_outcome ?m1 [] = Inl (p, False) \<and> range_outcome ?m1' [] = Inl (p', False)"
    then show ?thesis unfolding guesspkg_outcome by auto
  qed
qed


subsection \<open>The fallback scan of Import\<close>

lemma Import_fallback:
  assumes "LookupFunc (Funcs (table ex)) ''main.main'' = Some mainfn"
    and "PCToLine (table ex) (Entry mainfn) = (file, line, None)"
  shows "Import env r1 r2 ex =
     (case guesspkg (Import_name ex) (r1 (import_files (filtered env) (Files (table ex)) []))
             (r2 (import_files (filtered env) (Files (table ex)) [])) of
        (pkg, unique) \<Rightarrow> if unique \<and> pkg \<noteq> [] then (pkg, None) else ([], Some ErrGuessFail))"
  using assms by (simp add: Import_def Let_def)

lemma Import_exe_files:
  "Import env r1 r2 (exe_files fs) =
     (case guesspkg ''prog'' (r1 (import_files (filtered env) (map (\<lambda>f. (f, obj_main)) fs) []))
             (r2 (import_files (filtered env) (map (\<lambda>f. (f, obj_main)) fs) [])) of
        (pkg, unique) \<Rightarrow> if unique \<and> pkg \<noteq> [] then (pkg, None) else ([], Some ErrGuessFail))"
proof -
  have l: "LookupFunc (Funcs (table (exe_files fs))) ''main.main'' = Some \<lparr>Sym_Name = ''main.main'', Entry = 8192\<rparr>"
    by (simp add: exe_files_def tbl_fallback_def)
  have p: "PCToLine (table (exe_files fs)) (Entry \<lparr>Sym_Name = ''main.main'', Entry = 8192\<rparr>) = ([], 0, None)"
    by (simp add: exe_files_def tbl_fallback_def)
  have n: "Import_name (exe_files fs) = ''prog''"
    by (simp add: Import_name_def exe_files_def Base_def)
  have f: "Files (table (exe_files fs)) = map (\<lambda>f. (f, obj_main)) fs"
    by (simp add: exe_files_def tbl_fallback_def)
  show ?thesis unfolding Import_fallback[OF l p] n f ..
qed

lemma fallback_result_eq:
  assumes "g = g' \<or> (snd g = False \<and> snd g' = False)"
  shows "(case g of (pkg, unique) \<Rightarrow> if unique \<and> pkg \<noteq> [] then (pkg, None) else ([], Some ErrGuessFail))
       = (case g' of (pkg, unique) \<Rightarrow> if unique \<and> pkg \<noteq> [] then (pkg, None) else ([], Some ErrGuessFail))"
  using assms by (cases g; cases g') auto

lemma fallback_result_fail:
  assumes "snd g = False"
  shows "(case g of (pkg, unique) \<Rightarrow> if unique \<and> pkg \<noteq> [] then (pkg, None) else ([], Some ErrGuessFail))
       = ([], Some ErrGuessFail)"
  using assms by (cases g) simp

lemma permutes_mset: "permutes r \<Longrightarrow> mset (r ks) = mset ks"
  by (simp add: permutes_def)

lemma permutes_set: "permutes r \<Longrightarrow> set (r ks) = set ks"
  by (metis permutes_mset set_mset_mset)

lemma isfiltered_set: "set flt' = set flt \<Longrightarrow> isfiltered flt' file = isfiltered flt file"
  by (simp add: isfiltered_iff)

lemma import_files_mset:
  assumes "set files' = set files"
  shows "mset (import_files flt files' []) = mset (import_files flt files [])"
proof -
  have "set (import_files flt files' []) = set (import_files flt files [])"
    using assms by (simp add: set_import_files)
  moreover have "distinct (import_files flt files' [])" "distinct (import_files flt files [])"
    by (simp_all add: distinct_import_files)
  ultimately show ?thesis by (simp add: set_eq_iff_mset_eq_distinct)
qed


lemma exe_files_mixed_dirs:
  "import_files (filtered env_root)
     (map (\<lambda>f. (f, obj_main)) [''/a/src/cmd/prog/main.go'', ''/b/cmd/prog/main.go'']) []
   = [''/b/cmd/prog'', ''/a/src/cmd/prog'']"
  by (simp add: obj_main_def filtered_def env_root_def Contains_def Dir_def Clean_def)

lemma exe_files_fall_dirs:
  "import_files (filtered env_root)
     (map (\<lambda>f. (f, obj_main)) [''/a/cmd/prog/main.go'', ''/b/cmd/prog/main.go'', ''/c/src/prog/main.go'']) []
   = [''/c/src/prog'', ''/b/cmd/prog'', ''/a/cmd/prog'']"
  by (simp add: obj_main_def filtered_def env_root_def Contains_def Dir_def Clean_def)

lemma exe_files_two_dirs:
  "import_files (filtered env_root)
     (map (\<lambda>f. (f, obj_main)) [''/a/src/cmd/prog/main.go'', ''/b/src/cmd/prog/main.go'']) []
   = [''/b/src/cmd/prog'', ''/a/src/cmd/prog'']"
  by (simp add: obj_main_def filtered_def env_root_def Contains_def Dir_def Clean_def)

text \<open>
  C5, as the claim states it, fails: two distinct candidate directories contain
  \<open>cmd/prog\<close>, yet \<open>Import\<close> returns the package of the one that also contains \<open>/src/\<close>;
  and with two candidates that contain \<open>cmd/prog\<close> but not \<open>/src/\<close>, the bare name
  \<open>prog\<close> is still tried and resolves.
\<close>

theorem guesspkg_uniqueness_counterexample:
  "import_files (filtered env_root)
     (Files (table (exe_files [''/a/src/cmd/prog/main.go'', ''/b/cmd/prog/main.go'']))) []
     = [''/b/cmd/prog'', ''/a/src/cmd/prog'']
   \<and> Contains ''/b/cmd/prog'' ''cmd/prog'' \<and> Contains ''/a/src/cmd/prog'' ''cmd/prog''
   \<and> Import env_root id rev (exe_files [''/a/src/cmd/prog/main.go'', ''/b/cmd/prog/main.go''])
       = (''cmd/prog'', None)
   \<and> import_files (filtered env_root)
       (Files (table (exe_files [''/a/cmd/prog/main.go'', ''/b/cmd/prog/main.go'', ''/c/src/prog/main.go'']))) []
       = [''/c/src/prog'', ''/b/cmd/prog'', ''/a/cmd/prog'']
   \<and> Contains ''/b/cmd/prog'' ''cmd/prog'' \<and> Contains ''/a/cmd/prog'' ''cmd/prog''
   \<and> Import env_root id rev
        (exe_files [''/a/cmd/prog/main.go'', ''/b/cmd/prog/main.go'', ''/c/src/prog/main.go''])
       = (''prog'', None)"
proof -
  have f: "\<And>fs. Files (table (exe_files fs)) = map (\<lambda>f. (f, obj_main)) fs"
    by (simp add: exe_files_def tbl_fallback_def)
  have c: "Contains ''/b/cmd/prog'' ''cmd/prog''" "Contains ''/a/src/cmd/prog'' ''cmd/prog''"
    "Contains ''/a/cmd/prog'' ''cmd/prog''"
    by (simp_all add: Contains_def)
  have g1: "guesspkg ''prog'' [''/b/cmd/prog'', ''/a/src/cmd/prog''] [''/a/src/cmd/prog'', ''/b/cmd/prog'']
            = (''cmd/prog'', True)"
    by (simp add: guesspkg_def Contains_def src_def ToSlash_def)
  have g2: "guesspkg ''prog'' [''/c/src/prog'', ''/b/cmd/prog'', ''/a/cmd/prog'']
              [''/a/cmd/prog'', ''/b/cmd/prog'', ''/c/src/prog'']
            = (''prog'', True)"
    by (simp add: guesspkg_def Contains_def src_def ToSlash_def)
  have i1: "Import env_root id rev (exe_files [''/a/src/cmd/prog/main.go'', ''/b/cmd/prog/main.go''])
       = (''cmd/prog'', None)"
    unfolding Import_exe_files exe_files_mixed_dirs by (simp add: g1)
  have i2: "Import env_root id rev
        (exe_files [''/a/cmd/prog/main.go'', ''/b/cmd/prog/main.go'', ''/c/src/prog/main.go''])
       = (''prog'', None)"
    unfolding Import_exe_files exe_files_fall_dirs by (simp add: g2)
  have d1: "import_files (filtered env_root)
     (Files (table (exe_files [''/a/src/cmd/prog/main.go'', ''/b/cmd/prog/main.go'']))) []
     = [''/b/cmd/prog'', ''/a/src/cmd/prog'']"
    unfolding f by (rule exe_files_mixed_dirs)
  have d2: "import_files (filtered env_root)
       (Files (table (exe_files [''/a/cmd/prog/main.go'', ''/b/cmd/prog/main.go'', ''/c/src/prog/main.go'']))) []
       = [''/c/src/prog'', ''/b/cmd/prog'', ''/a/cmd/prog'']"
    unfolding f by (rule exe_files_fall_dirs)
  show ?thesis
    by (intro conjI d1 d2 c i1 i2)
qed

text \<open>
  C5, amended: when two distinct candidate directories of the fallback scan both contain
  \<open>cmd/<name>\<close> and \<open>/src/\<close>, \<open>Import\<close> fails, in every visiting order. As soon as one
  directory counts for \<open>cmd/<name>\<close>, the result of \<open>guesspkg\<close> does not depend on the
  second run of the loop; the bare name decides only when no directory counts for
  \<open>cmd/<name>\<close>.
\<close>

theorem guesspkg_uniqueness:
  assumes "LookupFunc (Funcs (table ex)) ''main.main'' = Some mainfn"
    and "PCToLine (table ex) (Entry mainfn) = (file, line, None)"
    and "permutes r1"
    and "d1 \<in> set (import_files (filtered env) (Files (table ex)) [])"
    and "d2 \<in> set (import_files (filtered env) (Files (table ex)) [])"
    and "d1 \<noteq> d2"
    and "candidate_match (''cmd/'' @ Import_name ex) d1"
    and "candidate_match (''cmd/'' @ Import_name ex) d2"
  shows "Import env r1 r2 ex = ([], Some ErrGuessFail)
     \<and> (\<forall>name ds1 ds2 ds2'. (\<exists>d \<in> set ds1. candidate_match (''cmd/'' @ name) d) \<longrightarrow>
           guesspkg name ds1 ds2 = guesspkg name ds1 ds2')
     \<and> (\<forall>name ds1 ds2. (\<forall>d \<in> set ds1. \<not> candidate_match (''cmd/'' @ name) d) \<longrightarrow>
           guesspkg name ds1 ds2 = guesspkg name [] ds2)"
proof (intro conjI allI impI)
  let ?dirs = "import_files (filtered env) (Files (table ex)) []"
  from assms(3) have "set (r1 ?dirs) = set ?dirs" by (rule permutes_set)
  with assms(4,5) have "d1 \<in> set (r1 ?dirs)" "d2 \<in> set (r1 ?dirs)" by simp_all
  then have "snd (guesspkg (Import_name ex) (r1 ?dirs) (r2 ?dirs)) = False"
    using assms(6,7,8) by (rule guesspkg_ambiguous)
  then show "Import env r1 r2 ex = ([], Some ErrGuessFail)"
    unfolding Import_fallback[OF assms(1,2)] by (rule fallback_result_fail)
next
  fix name ds1 ds2 ds2'
  assume "\<exists>d \<in> set ds1. candidate_match (''cmd/'' @ name) d"
  then show "guesspkg name ds1 ds2 = guesspkg name ds1 ds2'" by (rule guesspkg_first_decides)
next
  fix name ds1 ds2
  assume "\<forall>d \<in> set ds1. \<not> candidate_match (''cmd/'' @ name) d"
  then show "guesspkg name ds1 ds2 = guesspkg name [] ds2" by (rule guesspkg_first_none)
qed

theorem guesspkg_uniqueness_witness:
  "Import env_root id rev (exe_files [''/a/src/cmd/prog/main.go'', ''/b/src/cmd/prog/main.go''])
     = ([], Some ErrGuessFail)"
proof -
  let ?ex = "exe_files [''/a/src/cmd/prog/main.go'', ''/b/src/cmd/prog/main.go'']"
  have l: "LookupFunc (Funcs (table ?ex)) ''main.main'' = Some \<lparr>Sym_Name = ''main.main'', Entry = 8192\<rparr>"
    by (simp add: exe_files_def tbl_fallback_def)
  have p: "PCToLine (table ?ex) (Entry \<lparr>Sym_Name = ''main.main'', Entry = 8192\<rparr>) = ([], 0, None)"
    by (simp add: exe_files_def tbl_fallback_def)
  have r: "permutes id" by (simp add: permutes_def)
  have f: "Files (table ?ex) = map (\<lambda>f. (f, obj_main)) [''/a/src/cmd/prog/main.go'', ''/b/src/cmd/prog/main.go'']"
    by (simp add: exe_files_def tbl_fallback_def)
  have d: "import_files (filtered env_root) (Files (table ?ex)) [] = [''/b/src/cmd/prog'', ''/a/src/cmd/prog'']"
    unfolding f by (rule exe_files_two_dirs)
  have d1: "''/a/src/cmd/prog'' \<in> set (import_files (filtered env_root) (Files (table ?ex)) [])"
    unfolding d by simp
  have d2: "''/b/src/cmd/prog'' \<in> set (import_files (filtered env_root) (Files (table ?ex)) [])"
    unfolding d by simp
  have ne: "''/a/src/cmd/prog'' \<noteq> ''/b/src/cmd/prog''" by simp
  have n: "Import_name ?ex = ''prog''"
    by (simp add: Import_name_def exe_files_def Base_def)
  have m1: "candidate_match (''cmd/'' @ Import_name ?ex) ''/a/src/cmd/prog''"
    unfolding n by (simp add: candidate_match_def Contains_def src_def)
  have m2: "candidate_match (''cmd/'' @ Import_name ?ex) ''/b/src/cmd/prog''"
    unfolding n by (simp add: candidate_match_def Contains_def src_def)
  from guesspkg_uniqueness[OF l p r d1 d2 ne m1 m2, of rev] show ?thesis
    by (rule conjunct1)
qed

text \<open>
  C9: \<open>Import\<close> returns the same pair whatever order each \<open>range\<close> statement visits its
  map in: the two runs of the loop over \<open>dirs\<close>, the loop over the file table (any listing
  of the same files) and the loop over the filtered fragments (any listing of the same
  fragments).
\<close>

theorem Import_deterministic:
  assumes "permutes r1" and "permutes r2" and "permutes r1'" and "permutes r2'"
    and "set files' = set (Files (table ex))"
    and "set flt' = set (filtered env)"
  shows "Import env r1 r2 ex = Import env r1' r2' (ex\<lparr>table := (table ex)\<lparr>Files := files'\<rparr>\<rparr>)
     \<and> (\<forall>file. isfiltered flt' file = isfiltered (filtered env) file)"
proof
  let ?ex' = "ex\<lparr>table := (table ex)\<lparr>Files := files'\<rparr>\<rparr>"
  let ?dirs = "import_files (filtered env) (Files (table ex)) []"
  let ?dirs' = "import_files (filtered env) files' []"
  have n: "Import_name ?ex' = Import_name ex" by (simp add: Import_name_def)
  have m: "mset ?dirs' = mset ?dirs" using assms(5) by (rule import_files_mset)
  have m1: "mset (r1 ?dirs) = mset (r1' ?dirs')"
    unfolding permutes_mset[OF assms(1)] permutes_mset[OF assms(3)] using m by (rule sym)
  have m2: "mset (r2 ?dirs) = mset (r2' ?dirs')"
    unfolding permutes_mset[OF assms(2)] permutes_mset[OF assms(4)] using m by (rule sym)
  have g: "(case guesspkg (Import_name ex) (r1 ?dirs) (r2 ?dirs) of
              (pkg, unique) \<Rightarrow> if unique \<and> pkg \<noteq> [] then (pkg, None) else ([], Some ErrGuessFail))
         = (case guesspkg (Import_name ex) (r1' ?dirs') (r2' ?dirs') of
              (pkg, unique) \<Rightarrow> if unique \<and> pkg \<noteq> [] then (pkg, None) else ([], Some ErrGuessFail))"
    by (rule fallback_result_eq[OF guesspkg_perm[OF m1 m2]])
  show "Import env r1 r2 ex = Import env r1' r2' ?ex'"
  proof (cases "LookupFunc (Funcs (table ex)) ''main.main''")
    case None
    then show ?thesis by (simp add: Import_def)
  next
    case (Some mainfn)
    obtain fl line fn where p: "PCToLine (table ex) (Entry mainfn) = (fl, line, fn)"
      by (cases "PCToLine (table ex) (Entry mainfn)")
    show ?thesis
    proof (cases fn)
      case None
      have l': "LookupFunc (Funcs (table ?ex')) ''main.main'' = Some mainfn"
        using Some by simp
      have p': "PCToLine (table ?ex') (Entry mainfn) = (fl, line, None)"
        using p None by simp
      have f': "Files (table ?ex') = files'" by simp
      show ?thesis
        unfolding Import_fallback[OF Some p[unfolded None]] Import_fallback[OF l' p'] n f'
        by (rule g)
    next
      case (Some fn')
      with \<open>LookupFunc (Funcs (table ex)) ''main.main'' = Some mainfn\<close> p show ?thesis
        by (simp add: Import_def Import_name_def)
    qed
  qed
next
  show "\<forall>file. isfiltered flt' file = isfiltered (filtered env) file"
    by (intro allI isfiltered_set assms(6))
qed

theorem Import_deterministic_witness:
  "Import env_root id rev (exe_files [''/a/src/cmd/prog/main.go'', ''/b/cmd/prog/main.go''])
   = Import env_root rev id
       ((exe_files [''/a/src/cmd/prog/main.go'', ''/b/cmd/prog/main.go''])
          \<lparr>table := (table (exe_files [''/a/src/cmd/prog/main.go'', ''/b/cmd/prog/main.go'']))
             \<lparr>Files := [(''/b/cmd/prog/main.go'', obj_main), (''/a/src/cmd/prog/main.go'', obj_main)]\<rparr>\<rparr>)"
proof -
  let ?ex = "exe_files [''/a/src/cmd/prog/main.go'', ''/b/cmd/prog/main.go'']"
  have i: "permutes id" and r: "permutes rev" by (simp_all add: permutes_def)
  have f: "set [(''/b/cmd/prog/main.go'', obj_main), (''/a/src/cmd/prog/main.go'', obj_main)]
           = set (Files (table ?ex))"
    by (auto simp: exe_files_def tbl_fallback_def)
  have s: "set (rev (filtered env_root)) = set (filtered env_root)" by simp
  from Import_deterministic[OF i r r i f s] show ?thesis
    by (rule conjunct1)
qed

subsection \<open>Split, join and Clean\<close>

lemma Split_nonempty: "Split s c \<noteq> []"
  by (induction s) (simp_all split: list.splits)

lemma Split_no_sep: "e \<in> set (Split s c) \<Longrightarrow> c \<notin> set e"
proof (induction s arbitrary: e)
  case Nil
  then show ?case by simp
next
  case (Cons h t)
  show ?case
  proof (cases "h = c")
    case True
    with Cons show ?thesis by auto
  next
    case False
    obtain x xs where s: "Split t c = x # xs"
      using Split_nonempty[of t c] by (cases "Split t c") auto
    with Cons.prems False have "e = h # x \<or> e \<in> set xs" by simp
    then show ?thesis
    proof
      assume "e = h # x"
      moreover have "c \<notin> set x" using Cons.IH[of x] s by simp
      ultimately show ?thesis using False by simp
    next
      assume "e \<in> set xs"
      then show ?thesis using Cons.IH[of e] s by simp
    qed
  qed
qed

lemma clean_elem_ok:
  assumes "\<forall>x \<in> set out. x \<noteq> [] \<and> CHR ''/'' \<notin> set x" and "CHR ''/'' \<notin> set e"
  shows "\<forall>x \<in> set (clean_elem rooted out e). x \<noteq> [] \<and> CHR ''/'' \<notin> set x"
  using assms by (cases out) auto

lemma foldl_clean_elem_ok:
  assumes "\<forall>x \<in> set out. x \<noteq> [] \<and> CHR ''/'' \<notin> set x" and "\<forall>e \<in> set es. CHR ''/'' \<notin> set e"
  shows "\<forall>x \<in> set (foldl (clean_elem rooted) out es). x \<noteq> [] \<and> CHR ''/'' \<notin> set x"
  using assms
proof (induction es arbitrary: out)
  case Nil
  then show ?case by simp
next
  case (Cons e es)
  have "\<forall>x \<in> set (clean_elem rooted out e). x \<noteq> [] \<and> CHR ''/'' \<notin> set x"
    by (rule clean_elem_ok) (use Cons.prems in simp_all)
  then have "\<forall>x \<in> set (foldl (clean_elem rooted) (clean_elem rooted out e) es). x \<noteq> [] \<and> CHR ''/'' \<notin> set x"
    by (rule Cons.IH) (use Cons.prems in simp)
  then show ?case by (simp del: clean_elem.simps)
qed

lemma join_sep_shape:
  assumes "es \<noteq> []" and "\<forall>x \<in> set es. x \<noteq> [] \<and> CHR ''/'' \<notin> set x"
  shows "join_sep es \<noteq> [] \<and> last (join_sep es) \<noteq> CHR ''/''"
  using assms
proof (induction es rule: join_sep.induct)
  case 1
  then show ?case by simp
next
  case (2 e)
  then have "e \<noteq> []" "CHR ''/'' \<notin> set e" by simp_all
  then have "last e \<in> set e" by simp
  with \<open>CHR ''/'' \<notin> set e\<close> have "last e \<noteq> CHR ''/''" by auto
  with \<open>e \<noteq> []\<close> show ?case by simp
next
  case (3 e v va)
  then have "join_sep (v # va) \<noteq> [] \<and> last (join_sep (v # va)) \<noteq> CHR ''/''" by simp
  then show ?case by simp
qed

lemma Clean_shape: "clean_shape (Clean p)"
proof (cases "p = []")
  case True
  then show ?thesis by (simp add: Clean_def clean_shape_def)
next
  case False
  define rooted where "rooted = (hd p = CHR ''/'')"
  define out where "out = foldl (clean_elem rooted) [] (Split p CHR ''/'')"
  have ok: "\<forall>x \<in> set out. x \<noteq> [] \<and> CHR ''/'' \<notin> set x"
    unfolding out_def by (rule foldl_clean_elem_ok) (simp_all add: Split_no_sep)
  have c: "Clean p = (if rooted then CHR ''/'' # join_sep (rev out)
                      else if out = [] then ''.'' else join_sep (rev out))"
    using False by (simp add: Clean_def rooted_def out_def Let_def)
  show ?thesis
  proof (cases "out = []")
    case True
    then show ?thesis unfolding c by (simp add: clean_shape_def)
  next
    case False
    then have "join_sep (rev out) \<noteq> [] \<and> last (join_sep (rev out)) \<noteq> CHR ''/''"
      using ok by (intro join_sep_shape) simp_all
    then show ?thesis unfolding c by (simp add: clean_shape_def)
  qed
qed

lemma Dir_shape: "clean_shape (Dir file)"
  by (simp add: Dir_def Clean_shape split: option.splits)

lemma EvalSymlinks_shape: "EvalSymlinks env p = Some q \<Longrightarrow> clean_shape q"
  by (auto simp: EvalSymlinks_def Clean_shape)


subsection \<open>Results that are never empty\<close>

lemma LastIndex_Some:
  "LastIndex s sub = Some i \<Longrightarrow> \<exists>p q. s = p @ sub @ q \<and> length p = i"
proof (induction s arbitrary: i)
  case Nil
  then show ?case by (simp split: if_splits)
next
  case (Cons c cs)
  show ?case
  proof (cases "LastIndex cs sub")
    case None
    with Cons.prems have "prefix sub (c # cs)" and "i = 0"
      by (simp_all split: if_splits)
    then obtain q where "c # cs = sub @ q" by (auto simp: prefix_def)
    with \<open>i = 0\<close> show ?thesis by (intro exI[of _ "[]"] exI[of _ q]) simp
  next
    case (Some j)
    with Cons.prems have i: "i = Suc j" by simp
    from Cons.IH[OF Some] obtain p q where "cs = p @ sub @ q" "length p = j" by blast
    with i show ?thesis by (intro exI[of _ "c # p"] exI[of _ q]) simp
  qed
qed

lemma LastIndex_drop:
  assumes "LastIndex s sub = Some i"
  shows "\<exists>p. s = p @ sub @ drop (i + length sub) s"
proof -
  from LastIndex_Some[OF assms] obtain p q where s: "s = p @ sub @ q" and l: "length p = i"
    by blast
  have "drop (i + length sub) (p @ sub @ q) = q" using l by simp
  with s have q: "drop (i + length sub) s = q" by simp
  show ?thesis unfolding q using s by (rule exI[of _ p])
qed

lemma after_separator_nonempty:
  assumes "clean_shape d" and "d = p @ sub @ q"
    and "2 \<le> length sub" and "last sub = CHR ''/''"
  shows "q \<noteq> []"
proof
  assume "q = []"
  from assms(3) have "sub \<noteq> []" by auto
  with assms(2) \<open>q = []\<close> have "last d = last sub" by simp
  with assms(1,4) have "d = ''/''" by (simp add: clean_shape_def)
  then have "length d = 1" by simp
  moreover from assms(2,3) have "2 \<le> length d" by simp
  ultimately show False by simp
qed

lemma LastIndexByte_Some:
  "LastIndexByte s b = Some i \<Longrightarrow> \<exists>q. drop i s = b # q"
proof (induction s arbitrary: i)
  case Nil
  then show ?case by simp
next
  case (Cons c cs)
  show ?case
  proof (cases "LastIndexByte cs b")
    case None
    with Cons.prems show ?thesis by (simp split: if_splits)
  next
    case (Some j)
    with Cons.prems have "i = Suc j" by simp
    with Cons.IH[OF Some] show ?thesis by simp
  qed
qed

lemma IndexRune_Cons_other: "c \<noteq> b \<Longrightarrow> IndexRune (c # cs) b = Some t \<Longrightarrow> \<exists>k. t = Suc k"
  by auto

lemma pathtomodule_nonempty:
  assumes "dir \<noteq> []"
  shows "pathtomodule dir \<noteq> []"
proof (cases "LastIndexByte dir CHR ''@''")
  case None
  with assms show ?thesis by (simp add: pathtomodule_def)
next
  case (Some ati)
  then obtain q where v: "drop ati dir = CHR ''@'' # q"
    using LastIndexByte_Some by blast
  show ?thesis
  proof (cases "IndexRune (drop ati dir) CHR ''/''")
    case None
    with Some assms show ?thesis by (simp add: pathtomodule_def)
  next
    case (Some tdir)
    then obtain k where "tdir = Suc k"
      unfolding v using IndexRune_Cons_other[of "CHR ''@''" "CHR ''/''" q tdir] by auto
    then have "take tdir (drop ati dir) \<noteq> []" unfolding v by simp
    with Some \<open>LastIndexByte dir CHR ''@'' = Some ati\<close> show ?thesis
      by (simp add: pathtomodule_def del: Join.simps)
  qed
qed


lemma canonical_shape: "clean_shape p \<Longrightarrow> clean_shape (canonical env p)"
  by (simp add: canonical_def EvalSymlinks_shape split: option.splits)

lemma genpkgpath_loop_step:
  "genpkgpath_loop env dir (path0 # checkpaths) =
     (if \<not> prefix (canonical env path0 @ ''/'') dir then genpkgpath_loop env dir checkpaths
      else if prefix (canonical env path0 @ ''/src/'') dir
        then Some (drop (length (canonical env path0 @ ''/src/'')) dir)
      else if prefix (Join [canonical env path0 @ ''/'', ''pkg'', ''mod''] @ ''/'') dir
        then Some (pathtomodule (drop (length (Join [canonical env path0 @ ''/'', ''pkg'', ''mod''] @ ''/'')) dir))
      else genpkgpath_loop env dir checkpaths)"
  by (simp add: canonical_def HasPrefix_def Let_def del: Join.simps)

lemma prefix_rest_nonempty:
  assumes "clean_shape d" and "prefix sub d" and "2 \<le> length sub" and "last sub = CHR ''/''"
  shows "drop (length sub) d \<noteq> []"
proof -
  from assms(2) obtain q where d: "d = sub @ q" by (auto simp: prefix_def)
  then have "d = [] @ sub @ q" by simp
  with assms(1) have "q \<noteq> []" using assms(3,4) by (rule after_separator_nonempty)
  with d show ?thesis by simp
qed

lemma Join_nonempty: "e \<noteq> [] \<Longrightarrow> Join (e # es) \<noteq> []"
  using Clean_shape[of "join_sep (e # es)"] by (simp add: clean_shape_def)

lemma genpkgpath_loop_nonempty:
  assumes "clean_shape dir" and "genpkgpath_loop env dir checkpaths = Some p"
  shows "p \<noteq> []"
  using assms(2)
proof (induction checkpaths)
  case Nil
  then show ?case by simp
next
  case (Cons path0 checkpaths)
  let ?c = "canonical env path0"
  let ?m = "Join [?c @ ''/'', ''pkg'', ''mod''] @ ''/''"
  consider (skip) "genpkgpath_loop env dir checkpaths = Some p"
    | (srcdir) "prefix (?c @ ''/src/'') dir" "p = drop (length (?c @ ''/src/'')) dir"
    | (moddir) "prefix ?m dir" "p = pathtomodule (drop (length ?m) dir)"
    using Cons.prems unfolding genpkgpath_loop_step by (auto split: if_splits)
  then show ?case
  proof cases
    case skip
    then show ?thesis by (rule Cons.IH)
  next
    case srcdir
    have "drop (length (?c @ ''/src/'')) dir \<noteq> []"
      using assms(1) srcdir(1) by (rule prefix_rest_nonempty) simp_all
    with srcdir(2) show ?thesis by simp
  next
    case moddir
    have "Join [?c @ ''/'', ''pkg'', ''mod''] \<noteq> []" by (rule Join_nonempty) simp
    then have "2 \<le> length ?m" by (cases "Join [?c @ ''/'', ''pkg'', ''mod'']") simp_all
    with assms(1) moddir(1) have "drop (length ?m) dir \<noteq> []"
      by (rule prefix_rest_nonempty) simp
    with moddir(2) show ?thesis by (simp add: pathtomodule_nonempty)
  qed
qed

lemma guesspkg_single:
  "guesspkg name [dir] [dir] =
     (if candidate_match (''cmd/'' @ name) dir \<or> candidate_match name dir
      then (src_tail dir, True) else ([], False))"
  by (simp add: guesspkg_outcome)

lemma src_tail_nonempty:
  assumes "clean_shape dir" and "Contains dir src"
  shows "src_tail dir \<noteq> []"
proof -
  from assms(2) obtain i where i: "LastIndex dir src = Some i"
    using LastIndex_Contains[of dir src] by auto
  then obtain p where "dir = p @ src @ drop (i + length src) dir"
    using LastIndex_drop by blast
  with assms(1) have "drop (i + length src) dir \<noteq> []"
    by (rule after_separator_nonempty) (simp_all add: src_def)
  with i show ?thesis by (simp add: src_tail_def)
qed

lemma mod_rest_nonempty:
  assumes "clean_shape dir" and "LastIndex dir mod_path = Some i"
  shows "drop (i + length mod_path) dir \<noteq> []"
proof -
  from assms(2) obtain p where "dir = p @ mod_path @ drop (i + length mod_path) dir"
    using LastIndex_drop by blast
  with assms(1) show ?thesis
    by (rule after_separator_nonempty) (simp_all add: mod_path_def)
qed

lemma genpkgpath_unfold:
  "genpkgpath env name dir0 =
     (case genpkgpath_loop env (canonical env dir0) (GOROOT env # getgopath env) of
        Some p \<Rightarrow> (p, None)
      | None \<Rightarrow>
          if candidate_match (''cmd/'' @ name) (canonical env dir0)
             \<or> candidate_match name (canonical env dir0)
          then (src_tail (canonical env dir0), None)
          else (case LastIndex (canonical env dir0) mod_path of
                  Some i \<Rightarrow> (pathtomodule (drop (i + length mod_path) (canonical env dir0)), None)
                | None \<Rightarrow> ([], Some ErrGuessFail)))"
  unfolding genpkgpath_def canonical_def[symmetric] Let_def guesspkg_single
  by (simp split: option.splits)

lemma genpkgpath_exclusive:
  assumes "clean_shape (canonical env dir0)"
  shows "(\<exists>p. p \<noteq> [] \<and> genpkgpath env name dir0 = (p, None))
         \<or> genpkgpath env name dir0 = ([], Some ErrGuessFail)"
proof (cases "genpkgpath_loop env (canonical env dir0) (GOROOT env # getgopath env)")
  case (Some p)
  with assms have "p \<noteq> []" by (rule genpkgpath_loop_nonempty)
  with Some show ?thesis unfolding genpkgpath_unfold by simp
next
  case None
  show ?thesis
  proof (cases "candidate_match (''cmd/'' @ name) (canonical env dir0)
             \<or> candidate_match name (canonical env dir0)")
    case True
    then have "Contains (canonical env dir0) src" by (auto simp: candidate_match_def)
    with assms have "src_tail (canonical env dir0) \<noteq> []" by (rule src_tail_nonempty)
    with None True show ?thesis unfolding genpkgpath_unfold by simp
  next
    case False
    show ?thesis
    proof (cases "LastIndex (canonical env dir0) mod_path")
      case (Some i)
      with assms have "drop (i + length mod_path) (canonical env dir0) \<noteq> []"
        by (rule mod_rest_nonempty)
      then have "pathtomodule (drop (i + length mod_path) (canonical env dir0)) \<noteq> []"
        by (rule pathtomodule_nonempty)
      with None False Some show ?thesis unfolding genpkgpath_unfold by simp
    next
      case n: None
      with None False show ?thesis unfolding genpkgpath_unfold by simp
    qed
  qed
qed


lemma Import_exe_primary:
  "Import env r1 r2 (exe_primary f) = genpkgpath env ''foo'' (Dir f)"
  by (simp add: Import_def Import_name_def exe_primary_def Base_def)

lemma genpkgpath_env_root_src:
  "genpkgpath env_root ''foo'' (Dir ''/root/src/example.com/foo/main.go'') = (''example.com/foo'', None)"
proof -
  have d: "Dir ''/root/src/example.com/foo/main.go'' = ''/root/src/example.com/foo''"
    by (simp add: Dir_def Clean_def)
  have c: "canonical env_root ''/root/src/example.com/foo'' = ''/root/src/example.com/foo''"
    by (simp add: canonical_def EvalSymlinks_def env_root_def Clean_def)
  have r: "canonical env_root ''/root'' = ''/root''"
    by (simp add: canonical_def EvalSymlinks_def env_root_def Clean_def)
  have g: "GOROOT env_root = ''/root''" by (simp add: env_root_def)
  show ?thesis
    unfolding genpkgpath_unfold d c g genpkgpath_loop_step r by simp
qed

text \<open>
  C8: \<open>Import\<close> returns either a non-empty path and no error, or the empty path and an
  error, never anything else; so does \<open>genpkgpath\<close> on every directory \<open>Import\<close> gives it.
\<close>

theorem Import_exclusive:
  "((\<exists>p. p \<noteq> [] \<and> Import env r1 r2 ex = (p, None))
      \<or> Import env r1 r2 ex = ([], Some ErrGuessFail))
   \<and> ((\<exists>p. p \<noteq> [] \<and> genpkgpath env name (Dir file) = (p, None))
      \<or> genpkgpath env name (Dir file) = ([], Some ErrGuessFail))"
proof
  have dir: "\<And>f n. (\<exists>p. p \<noteq> [] \<and> genpkgpath env n (Dir f) = (p, None))
      \<or> genpkgpath env n (Dir f) = ([], Some ErrGuessFail)"
    by (intro genpkgpath_exclusive canonical_shape Dir_shape)
  show "(\<exists>p. p \<noteq> [] \<and> genpkgpath env name (Dir file) = (p, None))
      \<or> genpkgpath env name (Dir file) = ([], Some ErrGuessFail)"
    by (rule dir)
  show "(\<exists>p. p \<noteq> [] \<and> Import env r1 r2 ex = (p, None))
      \<or> Import env r1 r2 ex = ([], Some ErrGuessFail)"
  proof (cases "LookupFunc (Funcs (table ex)) ''main.main''")
    case None
    then show ?thesis by (simp add: Import_def)
  next
    case (Some mainfn)
    obtain fl line fn where p: "PCToLine (table ex) (Entry mainfn) = (fl, line, fn)"
      by (cases "PCToLine (table ex) (Entry mainfn)")
    show ?thesis
    proof (cases fn)
      case None
      obtain pkg unique where g:
        "guesspkg (Import_name ex) (r1 (import_files (filtered env) (Files (table ex)) []))
           (r2 (import_files (filtered env) (Files (table ex)) [])) = (pkg, unique)"
        by (cases "guesspkg (Import_name ex) (r1 (import_files (filtered env) (Files (table ex)) []))
           (r2 (import_files (filtered env) (Files (table ex)) []))")
      show ?thesis
        unfolding Import_fallback[OF Some p[unfolded None]] g by simp
    next
      case fn': (Some fn')
      have "Import env r1 r2 ex = genpkgpath env (Import_name ex) (Dir fl)"
        using Some p fn' by (simp add: Import_def)
      then show ?thesis using dir[of "Import_name ex" fl] by simp
    qed
  qed
qed

theorem Import_exclusive_witness:
  "\<exists>p. p \<noteq> [] \<and> Import env_root id id (exe_primary ''/root/src/example.com/foo/main.go'') = (p, None)"
proof -
  have e: "Import env_root id id (exe_primary ''/root/src/example.com/foo/main.go'')
           \<noteq> ([], Some ErrGuessFail)"
    unfolding Import_exe_primary genpkgpath_env_root_src by simp
  note d = Import_exclusive[of env_root id id "exe_primary ''/root/src/example.com/foo/main.go''", THEN conjunct1]
  from d show ?thesis
  proof
    assume "\<exists>p. p \<noteq> [] \<and> Import env_root id id (exe_primary ''/root/src/example.com/foo/main.go'') = (p, None)"
    then show ?thesis .
  next
    assume "Import env_root id id (exe_primary ''/root/src/example.com/foo/main.go'') = ([], Some ErrGuessFail)"
    with e show ?thesis by (rule notE)
  qed
qed

subsection \<open>Cleaned paths and filepath.Join\<close>

lemma Split_append: "Split (a @ c # b) c = Split a c @ Split b c"
proof (induction a)
  case Nil
  then show ?case by simp
next
  case (Cons h t)
  obtain x xs where s: "Split t c = x # xs"
    using Split_nonempty[of t c] by (cases "Split t c") auto
  show ?case
  proof (cases "h = c")
    case True
    then show ?thesis using Cons by simp
  next
    case False
    then show ?thesis using Cons s by simp
  qed
qed

lemma Split_without_sep: "c \<notin> set e \<Longrightarrow> Split e c = [e]"
  by (induction e) auto

lemma join_sep_Cons: "es \<noteq> [] \<Longrightarrow> join_sep (e # es) = e @ CHR ''/'' # join_sep es"
  by (cases es) simp_all

lemma join_sep_append:
  "es \<noteq> [] \<Longrightarrow> fs \<noteq> [] \<Longrightarrow> join_sep (es @ fs) = join_sep es @ CHR ''/'' # join_sep fs"
proof (induction es rule: join_sep.induct)
  case 1
  then show ?case by simp
next
  case (2 e)
  then show ?case by (simp add: join_sep_Cons)
next
  case (3 e v va)
  then show ?case by simp
qed

lemma join_Split: "join_sep (Split s CHR ''/'') = s"
proof (induction s)
  case Nil
  then show ?case by simp
next
  case (Cons h t)
  obtain x xs where s: "Split t CHR ''/'' = x # xs"
    using Split_nonempty[of t "CHR ''/''"] by (cases "Split t CHR ''/''") auto
  show ?case
  proof (cases "h = CHR ''/''")
    case True
    then show ?thesis using Cons s by (simp add: join_sep_Cons)
  next
    case False
    have "join_sep ((h # x) # xs) = h # join_sep (x # xs)" by (cases xs) simp_all
    then show ?thesis using Cons s False by simp
  qed
qed

lemma Split_join:
  "es \<noteq> [] \<Longrightarrow> \<forall>e \<in> set es. CHR ''/'' \<notin> set e \<Longrightarrow> Split (join_sep es) CHR ''/'' = es"
proof (induction es rule: join_sep.induct)
  case 1
  then show ?case by simp
next
  case (2 e)
  then show ?case by (simp add: Split_without_sep)
next
  case (3 e v va)
  then have "Split (join_sep (v # va)) CHR ''/'' = v # va" by simp
  moreover have "Split e CHR ''/'' = [e]" using 3 by (simp add: Split_without_sep)
  ultimately show ?case by (simp add: Split_append del: Split.simps)
qed

lemma stack_ok_elems: "stack_ok rooted out \<Longrightarrow> \<forall>e \<in> set out. e \<noteq> [] \<and> CHR ''/'' \<notin> set e"
  by (induction out) simp_all

lemma stack_ok_append: "stack_ok rooted (a @ b) \<Longrightarrow> stack_ok rooted b"
  by (induction a) simp_all

lemma clean_elem_skip: "e = [] \<or> e = ''.'' \<Longrightarrow> clean_elem rooted out e = out"
  by auto

lemma clean_elem_dotdot_Nil: "clean_elem rooted [] ''..'' = (if rooted then [] else [''..''])"
  by simp

lemma clean_elem_dotdot_Cons:
  "clean_elem rooted (t # ts) ''..'' = (if t = ''..'' then ''..'' # t # ts else ts)"
  by simp

lemma clean_elem_real:
  "e \<noteq> [] \<Longrightarrow> e \<noteq> ''.'' \<Longrightarrow> e \<noteq> ''..'' \<Longrightarrow> clean_elem rooted out e = e # out"
  by simp

declare clean_elem.simps [simp del]

lemma stack_ok_dotdot: "stack_ok rooted (''..'' # ts) \<Longrightarrow> \<not> rooted \<and> (\<forall>x \<in> set ts. x = ''..'')"
  by simp

lemma stack_ok_tl: "stack_ok rooted (t # ts) \<Longrightarrow> stack_ok rooted ts"
  by simp

lemma stack_ok_dotdot_push:
  "\<not> rooted \<Longrightarrow> \<forall>x \<in> set out. x = ''..'' \<Longrightarrow> stack_ok rooted out \<Longrightarrow> stack_ok rooted (''..'' # out)"
  by simp

lemma stack_ok_real_push:
  "e \<noteq> [] \<Longrightarrow> CHR ''/'' \<notin> set e \<Longrightarrow> e \<noteq> ''.'' \<Longrightarrow> e \<noteq> ''..'' \<Longrightarrow> stack_ok rooted out
   \<Longrightarrow> stack_ok rooted (e # out)"
  by simp

lemma clean_elem_stack_ok:
  assumes "stack_ok rooted out" and "CHR ''/'' \<notin> set e"
  shows "stack_ok rooted (clean_elem rooted out e)"
proof -
  consider (skip) "e = [] \<or> e = ''.''" | (dotdot) "e = ''..''"
    | (real) "e \<noteq> []" "e \<noteq> ''.''" "e \<noteq> ''..''"
    by blast
  then show ?thesis
  proof cases
    case skip
    then show ?thesis using assms(1) by (simp only: clean_elem_skip)
  next
    case dotdot
    show ?thesis
    proof (cases out)
      case Nil
      show ?thesis unfolding dotdot Nil clean_elem_dotdot_Nil
        by (cases rooted) (simp_all del: stack_ok.simps(2) add: stack_ok_dotdot_push)
    next
      case (Cons t ts)
      show ?thesis
      proof (cases "t = ''..''")
        case True
        have ok: "stack_ok rooted (''..'' # ts)"
          using assms(1) unfolding Cons True .
        then have "\<not> rooted \<and> (\<forall>x \<in> set ts. x = ''..'')"
          by (rule stack_ok_dotdot)
        then have nr: "\<not> rooted" and al: "\<forall>x \<in> set (''..'' # ts). x = ''..''" by simp_all
        from nr al ok have st2: "stack_ok rooted (''..'' # ''..'' # ts)"
          by (rule stack_ok_dotdot_push)
        have ce: "clean_elem rooted (''..'' # ts) ''..'' = ''..'' # ''..'' # ts"
          by (simp add: clean_elem_dotdot_Cons)
        show ?thesis unfolding dotdot Cons True ce by (rule st2)
      next
        case False
        from assms(1) have st1: "stack_ok rooted ts" unfolding Cons by (rule stack_ok_tl)
        have ce: "clean_elem rooted (t # ts) ''..'' = ts"
          using False by (simp add: clean_elem_dotdot_Cons)
        show ?thesis unfolding dotdot Cons ce by (rule st1)
      qed
    qed
  next
    case real
    then have "stack_ok rooted (e # out)"
      using assms by (intro stack_ok_real_push)
    then show ?thesis by (simp only: clean_elem_real[OF real])
  qed
qed

lemma foldl_clean_elem_stack_ok:
  assumes "stack_ok rooted out" and "\<forall>e \<in> set es. CHR ''/'' \<notin> set e"
  shows "stack_ok rooted (foldl (clean_elem rooted) out es)"
  using assms
proof (induction es arbitrary: out)
  case Nil
  then show ?case by simp
next
  case (Cons e es)
  have "stack_ok rooted (clean_elem rooted out e)"
    by (rule clean_elem_stack_ok) (use Cons.prems in simp_all)
  then have "stack_ok rooted (foldl (clean_elem rooted) (clean_elem rooted out e) es)"
    by (rule Cons.IH) (use Cons.prems in simp)
  then show ?case by simp
qed

lemma Clean_render:
  "Clean p = render (p \<noteq> [] \<and> hd p = CHR ''/'')
               (foldl (clean_elem (p \<noteq> [] \<and> hd p = CHR ''/'')) [] (Split p CHR ''/''))"
proof (cases "p = []")
  case True
  then show ?thesis by (simp add: Clean_def render_def clean_elem_skip)
next
  case False
  then show ?thesis by (simp add: Clean_def render_def Let_def)
qed

lemma Clean_cleaned: "cleaned (Clean p)"
proof -
  let ?r = "p \<noteq> [] \<and> hd p = CHR ''/''"
  have "stack_ok ?r (foldl (clean_elem ?r) [] (Split p CHR ''/''))"
    by (rule foldl_clean_elem_stack_ok) (simp_all add: Split_no_sep)
  then show ?thesis
    unfolding cleaned_def Clean_render[of p] by blast
qed

lemma Dir_cleaned: "cleaned (Dir file)"
  by (simp add: Dir_def Clean_cleaned split: option.splits)

lemma canonical_cleaned: "cleaned p \<Longrightarrow> cleaned (canonical env p)"
  by (auto simp: canonical_def EvalSymlinks_def Clean_cleaned split: option.splits)

lemma clean_elem_push:
  assumes "stack_ok rooted (e # out)"
  shows "clean_elem rooted out e = e # out"
proof (cases "e = ''..''")
  case True
  from assms have d: "\<not> rooted \<and> (\<forall>x \<in> set out. x = ''..'')"
    unfolding True by (rule stack_ok_dotdot)
  show ?thesis
  proof (cases out)
    case Nil
    with d show ?thesis unfolding True by (simp add: clean_elem_dotdot_Nil)
  next
    case (Cons t ts)
    with d have "t = ''..''" by simp
    then show ?thesis unfolding True Cons by (simp add: clean_elem_dotdot_Cons)
  qed
next
  case False
  moreover from assms have "e \<noteq> []" "e \<noteq> ''.''" by simp_all
  ultimately show ?thesis by (simp add: clean_elem_real)
qed

lemma foldl_clean_elem_rev: "stack_ok rooted out \<Longrightarrow> foldl (clean_elem rooted) [] (rev out) = out"
proof (induction out)
  case Nil
  then show ?case by simp
next
  case (Cons e out)
  from Cons.prems have "stack_ok rooted out" by (rule stack_ok_tl)
  then have "foldl (clean_elem rooted) [] (rev out) = out" by (rule Cons.IH)
  then show ?case using clean_elem_push[OF Cons.prems] by simp
qed


lemma foldl_clean_elem_pkg_mod:
  "foldl (clean_elem rooted) out [[], ''pkg'', ''mod''] = ''mod'' # ''pkg'' # out"
  by (simp add: clean_elem_skip clean_elem_real)

lemma Split_pkg_mod: "Split (c @ ''//pkg/mod'') CHR ''/'' = Split c CHR ''/'' @ [[], ''pkg'', ''mod'']"
proof -
  have "c @ ''//pkg/mod'' = c @ CHR ''/'' # ''/pkg/mod''" by simp
  then have "Split (c @ ''//pkg/mod'') CHR ''/'' = Split c CHR ''/'' @ Split ''/pkg/mod'' CHR ''/''"
    by (simp only: Split_append)
  then show ?thesis by simp
qed

lemma Clean_after_rooted:
  assumes "stack_ok True st" and "CHR ''/'' # join_sep (rev st) = c @ CHR ''/'' # y"
  shows "Clean (c @ ''//pkg/mod'') = c @ ''/pkg/mod''"
proof -
  define E where "E = Split (join_sep (rev st)) CHR ''/''"
  have "Split (CHR ''/'' # join_sep (rev st)) CHR ''/'' = [] # E"
    by (simp add: E_def)
  moreover have "Split (c @ CHR ''/'' # y) CHR ''/'' = Split c CHR ''/'' @ Split y CHR ''/''"
    by (rule Split_append)
  ultimately have eq: "Split c CHR ''/'' @ Split y CHR ''/'' = [] # E"
    using assms(2) by simp
  obtain E1 where sc: "Split c CHR ''/'' = [] # E1" and e: "E1 @ Split y CHR ''/'' = E"
    using eq Split_nonempty[of c "CHR ''/''"] by (cases "Split c CHR ''/''") auto
  have "\<exists>z. rev st = E1 @ z"
  proof (cases "st = []")
    case True
    then have "E = [[]]" by (simp add: E_def)
    with e Split_nonempty[of y "CHR ''/''"] have "E1 = []"
      by (cases E1) auto
    with True show ?thesis by simp
  next
    case False
    then have "E = rev st"
      unfolding E_def using stack_ok_elems[OF assms(1)] by (intro Split_join) simp_all
    with e have "rev st = E1 @ Split y CHR ''/''" by simp
    then show ?thesis by (rule exI)
  qed
  then obtain z where "rev st = E1 @ z" ..
  then have "st = rev z @ rev E1" by (metis rev_append rev_rev_ident)
  with assms(1) have "stack_ok True (rev E1)" by (metis stack_ok_append)
  then have "foldl (clean_elem True) [] (rev (rev E1)) = rev E1"
    by (rule foldl_clean_elem_rev)
  then have fold1: "foldl (clean_elem True) [] E1 = rev E1" by simp
  have c: "c = join_sep ([] # E1)" using join_Split[of c] sc by simp
  let ?P = "c @ ''//pkg/mod''"
  have ne: "?P \<noteq> []" by simp
  have hd: "hd ?P = CHR ''/''"
  proof (cases E1)
    case Nil
    with c show ?thesis by simp
  next
    case (Cons a b)
    with c show ?thesis by simp
  qed
  have s1: "foldl (clean_elem True) [] ([] # E1) = rev E1"
    using fold1 by (simp add: clean_elem_skip)
  have "foldl (clean_elem True) [] (Split ?P CHR ''/'') = ''mod'' # ''pkg'' # rev E1"
    unfolding Split_pkg_mod sc foldl_append s1 by (rule foldl_clean_elem_pkg_mod)
  then have "Clean ?P = CHR ''/'' # join_sep (E1 @ [''pkg'', ''mod''])"
    unfolding Clean_render[of ?P] using ne hd by (simp add: render_def)
  also have "\<dots> = c @ ''/pkg/mod''"
  proof (cases "E1 = []")
    case True
    with c show ?thesis by simp
  next
    case False
    then have "join_sep (E1 @ [''pkg'', ''mod'']) = join_sep E1 @ CHR ''/'' # join_sep [''pkg'', ''mod'']"
      by (intro join_sep_append) simp_all
    moreover have "c = CHR ''/'' # join_sep E1" using c False by (simp add: join_sep_Cons)
    ultimately show ?thesis by simp
  qed
  finally show ?thesis .
qed

lemma Clean_after_relative:
  assumes "stack_ok False st" and "st \<noteq> []" and "join_sep (rev st) = c @ CHR ''/'' # y"
  shows "Clean (c @ ''//pkg/mod'') = c @ ''/pkg/mod''"
proof -
  let ?E1 = "Split c CHR ''/''"
  have "Split (join_sep (rev st)) CHR ''/'' = rev st"
    using assms(2) stack_ok_elems[OF assms(1)] by (intro Split_join) simp_all
  moreover have "Split (c @ CHR ''/'' # y) CHR ''/'' = ?E1 @ Split y CHR ''/''"
    by (rule Split_append)
  ultimately have r: "rev st = ?E1 @ Split y CHR ''/''" using assms(3) by simp
  then have "st = rev (Split y CHR ''/'') @ rev ?E1" by (metis rev_append rev_rev_ident)
  with assms(1) have "stack_ok False (rev ?E1)" by (metis stack_ok_append)
  then have "foldl (clean_elem False) [] (rev (rev ?E1)) = rev ?E1"
    by (rule foldl_clean_elem_rev)
  then have fold1: "foldl (clean_elem False) [] ?E1 = rev ?E1" by simp
  have c: "c = join_sep ?E1" by (simp add: join_Split)
  obtain a b where ab: "?E1 = a # b"
    using Split_nonempty[of c "CHR ''/''"] by (cases ?E1) auto
  have "a \<in> set (rev st)" unfolding r ab by simp
  then have a: "a \<noteq> []" "CHR ''/'' \<notin> set a"
    using stack_ok_elems[OF assms(1)] by simp_all
  then have "hd a \<noteq> CHR ''/''" by (cases a) auto
  moreover have "c \<noteq> [] \<and> hd c = hd a"
    using a(1) c[unfolded ab] by (cases b) auto
  ultimately have cne: "c \<noteq> []" and hdc: "hd c \<noteq> CHR ''/''" by simp_all
  let ?P = "c @ ''//pkg/mod''"
  have ne: "?P \<noteq> []" by simp
  have hd: "hd ?P \<noteq> CHR ''/''" using cne hdc by simp
  have "foldl (clean_elem False) [] (Split ?P CHR ''/'') = ''mod'' # ''pkg'' # rev ?E1"
    unfolding Split_pkg_mod foldl_append fold1 by (rule foldl_clean_elem_pkg_mod)
  then have "Clean ?P = join_sep (?E1 @ [''pkg'', ''mod''])"
    unfolding Clean_render[of ?P] using ne hd by (simp add: render_def)
  also have "\<dots> = join_sep ?E1 @ CHR ''/'' # join_sep [''pkg'', ''mod'']"
    by (intro join_sep_append) (simp_all add: Split_nonempty)
  also have "\<dots> = c @ ''/pkg/mod''" by (simp add: join_Split)
  finally show ?thesis .
qed

lemma Join_pkg_mod:
  assumes "cleaned d" and "prefix (c @ ''/'') d"
  shows "Join [c @ ''/'', ''pkg'', ''mod''] = c @ ''/pkg/mod''"
proof -
  from assms(2) obtain y where d: "d = c @ CHR ''/'' # y" by (auto simp: prefix_def)
  from assms(1) obtain rooted st where ok: "stack_ok rooted st" and r: "d = render rooted st"
    by (auto simp: cleaned_def)
  have "Clean (c @ ''//pkg/mod'') = c @ ''/pkg/mod''"
  proof (cases rooted)
    case True
    with r d have "CHR ''/'' # join_sep (rev st) = c @ CHR ''/'' # y" by (simp add: render_def)
    with ok True show ?thesis by (intro Clean_after_rooted[of st c y]) simp_all
  next
    case False
    have "st \<noteq> []"
    proof
      assume "st = []"
      with r False d have "''.'' = c @ CHR ''/'' # y" by (simp add: render_def)
      then show False by (cases c) auto
    qed
    moreover from this r d False have "join_sep (rev st) = c @ CHR ''/'' # y"
      by (simp add: render_def)
    ultimately show ?thesis using ok False by (intro Clean_after_relative[of st c y]) simp_all
  qed
  then show ?thesis by simp
qed

subsection \<open>The search roots of genpkgpath\<close>

lemma genpkgpath_loop_cleaned:
  assumes "cleaned d"
  shows "genpkgpath_loop env d (path0 # checkpaths) =
     (if under_src env d path0 then Some (drop (length (canonical env path0 @ ''/src/'')) d)
      else if under_mod env d path0
        then Some (pathtomodule (drop (length (canonical env path0 @ ''/pkg/mod/'')) d))
      else genpkgpath_loop env d checkpaths)"
proof (cases "prefix (canonical env path0 @ ''/'') d")
  case True
  with assms have "Join [canonical env path0 @ ''/'', ''pkg'', ''mod''] = canonical env path0 @ ''/pkg/mod''"
    by (rule Join_pkg_mod)
  then have "Join [canonical env path0 @ ''/'', ''pkg'', ''mod''] @ ''/'' = canonical env path0 @ ''/pkg/mod/''"
    by simp
  then show ?thesis
    unfolding genpkgpath_loop_step under_src_def under_mod_def using True by simp
next
  case False
  have "prefix (canonical env path0 @ ''/'') (canonical env path0 @ ''/src/'')"
    "prefix (canonical env path0 @ ''/'') (canonical env path0 @ ''/pkg/mod/'')"
    by simp_all
  with False have "\<not> prefix (canonical env path0 @ ''/src/'') d"
    "\<not> prefix (canonical env path0 @ ''/pkg/mod/'') d"
    using prefix_order.trans by blast+
  with False show ?thesis
    unfolding genpkgpath_loop_step under_src_def under_mod_def by simp
qed

lemma genpkgpath_loop_skip:
  assumes "cleaned d" and "\<forall>r \<in> set pre. \<not> under_src env d r \<and> \<not> under_mod env d r"
  shows "genpkgpath_loop env d (pre @ rest) = genpkgpath_loop env d rest"
  using assms(2)
proof (induction pre)
  case Nil
  then show ?case by simp
next
  case (Cons r pre)
  then have "genpkgpath_loop env d (pre @ rest) = genpkgpath_loop env d rest" by simp
  moreover from Cons.prems have "\<not> under_src env d r" "\<not> under_mod env d r" by simp_all
  ultimately show ?case
    using genpkgpath_loop_cleaned[OF assms(1), of env r "pre @ rest"] by simp
qed

lemma genpkgpath_loop_none:
  assumes "cleaned d" and "\<forall>r \<in> set roots. \<not> under_src env d r \<and> \<not> under_mod env d r"
  shows "genpkgpath_loop env d roots = None"
  using genpkgpath_loop_skip[OF assms, of "[]"] by simp

lemma LastIndex_greatest:
  "LastIndex s sub = Some i \<Longrightarrow> s = p @ sub @ q \<Longrightarrow> length p \<le> i"
proof (induction s arbitrary: i p)
  case Nil
  then show ?case by simp
next
  case (Cons c cs)
  show ?case
  proof (cases p)
    case Nil
    then show ?thesis by simp
  next
    case p: (Cons c' p')
    with Cons.prems(2) have cs: "cs = p' @ sub @ q" by simp
    then have "sublist sub cs" by (auto simp: sublist_def)
    then obtain j where j: "LastIndex cs sub = Some j"
      using LastIndex_None_iff[of cs sub] by auto
    with Cons.prems(1) have "i = Suc j" by simp
    moreover from Cons.IH[OF j cs] have "length p' \<le> j" .
    ultimately show ?thesis using p by simp
  qed
qed


subsection \<open>The examples of the specification\<close>

lemma checkpaths_env_root: "GOROOT env_root # getgopath env_root = [''/root'', ''/root'']"
  by (simp add: env_root_def getgopath_def)

lemma canonical_env_root: "canonical env_root p = Clean p"
  by (simp add: canonical_def EvalSymlinks_def env_root_def)

lemma Clean_root: "Clean ''/root'' = ''/root''"
  by (simp add: Clean_def clean_elem.simps)

lemma Clean_src_foo: "Clean ''/root/src/example.com/foo'' = ''/root/src/example.com/foo''"
  by (simp add: Clean_def clean_elem.simps)

lemma Clean_mod_bar:
  "Clean ''/root/pkg/mod/example.com/foo@v1.0.0/cmd/bar'' = ''/root/pkg/mod/example.com/foo@v1.0.0/cmd/bar''"
  by (simp add: Clean_def clean_elem.simps)

lemma Clean_other: "Clean ''/other/pkg/mod/example.com/foo@v2.0.0'' = ''/other/pkg/mod/example.com/foo@v2.0.0''"
  by (simp add: Clean_def clean_elem.simps)

lemma Join_root_pkg_mod: "Join [''/root'' @ ''/'', ''pkg'', ''mod''] = ''/root/pkg/mod''"
  by (simp add: Clean_def clean_elem.simps)

lemma genpkgpath_example_src:
  "genpkgpath env_root name ''/root/src/example.com/foo'' = (''example.com/foo'', None)"
proof -
  have "genpkgpath_loop env_root ''/root/src/example.com/foo'' [''/root'', ''/root'']
        = Some ''example.com/foo''"
    unfolding genpkgpath_loop_step canonical_env_root Clean_root by simp
  then show ?thesis
    unfolding genpkgpath_unfold canonical_env_root Clean_src_foo checkpaths_env_root by simp
qed

lemma pathtomodule_example: "pathtomodule ''example.com/foo@v1.0.0/cmd/bar'' = ''example.com/foo/cmd/bar@v1.0.0''"
  by (simp add: pathtomodule_def Clean_def clean_elem.simps)

lemma genpkgpath_example_mod:
  "genpkgpath env_root name ''/root/pkg/mod/example.com/foo@v1.0.0/cmd/bar''
   = (''example.com/foo/cmd/bar@v1.0.0'', None)"
proof -
  have "genpkgpath_loop env_root ''/root/pkg/mod/example.com/foo@v1.0.0/cmd/bar'' [''/root'', ''/root'']
        = Some (pathtomodule ''example.com/foo@v1.0.0/cmd/bar'')"
    unfolding genpkgpath_loop_step canonical_env_root Clean_root Join_root_pkg_mod by simp
  then show ?thesis
    unfolding genpkgpath_unfold canonical_env_root Clean_mod_bar checkpaths_env_root pathtomodule_example
    by simp
qed

lemma genpkgpath_example_other:
  "genpkgpath env_root name ''/other/pkg/mod/example.com/foo@v2.0.0'' = (''example.com/foo@v2.0.0'', None)"
proof -
  let ?d = "''/other/pkg/mod/example.com/foo@v2.0.0''"
  have l: "genpkgpath_loop env_root ?d [''/root'', ''/root''] = None"
    unfolding genpkgpath_loop_step canonical_env_root Clean_root by simp
  have c: "\<not> Contains ?d src" by (simp add: Contains_def src_def)
  have i: "LastIndex ?d mod_path = Some 6" by (simp add: mod_path_def)
  have p: "pathtomodule (drop (6 + length mod_path) ?d) = ''example.com/foo@v2.0.0''"
    by (simp add: mod_path_def pathtomodule_def)
  show ?thesis
    unfolding genpkgpath_unfold canonical_env_root Clean_other checkpaths_env_root l
      candidate_match_def i
    using c p by simp
qed


lemma checkpaths_env_nested:
  "GOROOT env_nested # getgopath env_nested = [''/usr/local/go'', ''/home/u'', ''/home/u/src/go'']"
  by (simp add: env_nested_def getgopath_def)

lemma canonical_env_nested: "canonical env_nested p = Clean p"
  by (simp add: canonical_def EvalSymlinks_def env_nested_def)

lemma Clean_nested_roots:
  "Clean ''/usr/local/go'' = ''/usr/local/go''" "Clean ''/home/u'' = ''/home/u''"
  "Clean ''/home/u/src/go'' = ''/home/u/src/go''"
  by (simp_all add: Clean_def clean_elem.simps)

text \<open>
  C2, as the claim states it, fails when one search root lies inside the source tree of
  an earlier one: the directory is under \<open>/home/u/src/go/src/\<close> with remainder \<open>foo\<close>, but
  the earlier root \<open>/home/u\<close> wins and the result is \<open>go/src/foo\<close>.
\<close>

theorem genpkgpath_source_build_counterexample:
  "GOROOT env_nested # getgopath env_nested = [''/usr/local/go'', ''/home/u'', ''/home/u/src/go'']
   \<and> canonical env_nested (Dir ''/home/u/src/go/src/foo/main.go'')
       = canonical env_nested ''/home/u/src/go'' @ ''/src/'' @ ''foo''
   \<and> genpkgpath env_nested ''foo'' (Dir ''/home/u/src/go/src/foo/main.go'') = (''go/src/foo'', None)"
proof -
  have d: "Dir ''/home/u/src/go/src/foo/main.go'' = ''/home/u/src/go/src/foo''"
    by (simp add: Dir_def Clean_def clean_elem.simps)
  have c: "Clean ''/home/u/src/go/src/foo'' = ''/home/u/src/go/src/foo''"
    by (simp add: Clean_def clean_elem.simps)
  have l: "genpkgpath_loop env_nested ''/home/u/src/go/src/foo''
             [''/usr/local/go'', ''/home/u'', ''/home/u/src/go''] = Some ''go/src/foo''"
    unfolding genpkgpath_loop_step canonical_env_nested Clean_nested_roots by simp
  have g: "genpkgpath env_nested ''foo'' (Dir ''/home/u/src/go/src/foo/main.go'') = (''go/src/foo'', None)"
    unfolding genpkgpath_unfold d canonical_env_nested c checkpaths_env_nested l by simp
  have e: "canonical env_nested (Dir ''/home/u/src/go/src/foo/main.go'')
       = canonical env_nested ''/home/u/src/go'' @ ''/src/'' @ ''foo''"
    unfolding d canonical_env_nested c Clean_nested_roots by simp
  show ?thesis by (intro conjI checkpaths_env_nested e g)
qed

text \<open>
  C2, amended: when the canonical candidate directory is \<open><root>/src/\<close> followed by a
  remainder, for a search root \<open><root>\<close> such that the directory is under neither the source
  tree nor the module cache of any root before it in the list, \<open>genpkgpath\<close> returns the
  remainder. With the single root \<open>/root\<close>, the directory \<open>/root/src/example.com/foo\<close>
  yields \<open>example.com/foo\<close>.
\<close>

theorem genpkgpath_source_build:
  "(GOROOT env # getgopath env = pre @ root # post
      \<and> (\<forall>r \<in> set pre. \<not> under_src env (canonical env (Dir file)) r
                        \<and> \<not> under_mod env (canonical env (Dir file)) r)
      \<and> canonical env (Dir file) = canonical env root @ ''/src/'' @ rest
    \<longrightarrow> genpkgpath env name (Dir file) = (rest, None))
   \<and> genpkgpath env_root name ''/root/src/example.com/foo'' = (''example.com/foo'', None)"
proof (intro conjI impI)
  let ?d = "canonical env (Dir file)"
  assume h: "GOROOT env # getgopath env = pre @ root # post
      \<and> (\<forall>r \<in> set pre. \<not> under_src env ?d r \<and> \<not> under_mod env ?d r)
      \<and> ?d = canonical env root @ ''/src/'' @ rest"
  note h1 = h[THEN conjunct1] and h2 = h[THEN conjunct2, THEN conjunct1]
    and h3 = h[THEN conjunct2, THEN conjunct2]
  have cl: "cleaned ?d" by (intro canonical_cleaned Dir_cleaned)
  from h3 have d: "?d = (canonical env root @ ''/src/'') @ rest" by simp
  then have u: "under_src env ?d root" unfolding under_src_def by (metis prefixI)
  have dr: "drop (length (canonical env root @ ''/src/'')) ?d = rest"
    by (subst d) simp
  have "genpkgpath_loop env ?d (pre @ root # post) = genpkgpath_loop env ?d (root # post)"
    using cl h2 by (rule genpkgpath_loop_skip)
  also have "\<dots> = Some rest"
    unfolding genpkgpath_loop_cleaned[OF cl] using u dr by simp
  finally have "genpkgpath_loop env ?d (GOROOT env # getgopath env) = Some rest"
    unfolding h1 .
  then show "genpkgpath env name (Dir file) = (rest, None)"
    unfolding genpkgpath_unfold by simp
next
  show "genpkgpath env_root name ''/root/src/example.com/foo'' = (''example.com/foo'', None)"
    by (rule genpkgpath_example_src)
qed

theorem genpkgpath_source_build_witness:
  "genpkgpath env_nested ''foo'' (Dir ''/home/u/src/foo/main.go'') = (''foo'', None)"
proof -
  have d: "Dir ''/home/u/src/foo/main.go'' = ''/home/u/src/foo''"
    by (simp add: Dir_def Clean_def clean_elem.simps)
  have c: "Clean ''/home/u/src/foo'' = ''/home/u/src/foo''"
    by (simp add: Clean_def clean_elem.simps)
  have 1: "GOROOT env_nested # getgopath env_nested = [''/usr/local/go''] @ ''/home/u'' # [''/home/u/src/go'']"
    unfolding checkpaths_env_nested by simp
  have 2: "\<forall>r \<in> set [''/usr/local/go'']. \<not> under_src env_nested (canonical env_nested (Dir ''/home/u/src/foo/main.go'')) r
             \<and> \<not> under_mod env_nested (canonical env_nested (Dir ''/home/u/src/foo/main.go'')) r"
    unfolding d canonical_env_nested c under_src_def under_mod_def
    by (simp add: Clean_nested_roots)
  have 3: "canonical env_nested (Dir ''/home/u/src/foo/main.go'') = canonical env_nested ''/home/u'' @ ''/src/'' @ ''foo''"
    unfolding d canonical_env_nested c Clean_nested_roots by simp
  from genpkgpath_source_build[THEN conjunct1, rule_format, OF conjI[OF 1 conjI[OF 2 3]]]
  show ?thesis .
qed


text \<open>
  C3, as the claim states it, fails in the same way: the directory is under
  \<open>/home/u/src/go/pkg/mod/\<close> with remainder \<open>foo@v1/cmd\<close>, which reconstructs to
  \<open>foo/cmd@v1\<close>, but the earlier root \<open>/home/u\<close> wins with its source tree.
\<close>

theorem genpkgpath_module_cache_counterexample:
  "GOROOT env_nested # getgopath env_nested = [''/usr/local/go'', ''/home/u'', ''/home/u/src/go'']
   \<and> canonical env_nested (Dir ''/home/u/src/go/pkg/mod/foo@v1/cmd/main.go'')
       = canonical env_nested ''/home/u/src/go'' @ ''/pkg/mod/'' @ ''foo@v1/cmd''
   \<and> pathtomodule ''foo@v1/cmd'' = ''foo/cmd@v1''
   \<and> genpkgpath env_nested ''foo'' (Dir ''/home/u/src/go/pkg/mod/foo@v1/cmd/main.go'')
       = (''go/pkg/mod/foo@v1/cmd'', None)"
proof -
  have d: "Dir ''/home/u/src/go/pkg/mod/foo@v1/cmd/main.go'' = ''/home/u/src/go/pkg/mod/foo@v1/cmd''"
    by (simp add: Dir_def Clean_def clean_elem.simps)
  have c: "Clean ''/home/u/src/go/pkg/mod/foo@v1/cmd'' = ''/home/u/src/go/pkg/mod/foo@v1/cmd''"
    by (simp add: Clean_def clean_elem.simps)
  have l: "genpkgpath_loop env_nested ''/home/u/src/go/pkg/mod/foo@v1/cmd''
             [''/usr/local/go'', ''/home/u'', ''/home/u/src/go''] = Some ''go/pkg/mod/foo@v1/cmd''"
    unfolding genpkgpath_loop_step canonical_env_nested Clean_nested_roots by simp
  have g: "genpkgpath env_nested ''foo'' (Dir ''/home/u/src/go/pkg/mod/foo@v1/cmd/main.go'')
       = (''go/pkg/mod/foo@v1/cmd'', None)"
    unfolding genpkgpath_unfold d canonical_env_nested c checkpaths_env_nested l by simp
  have e: "canonical env_nested (Dir ''/home/u/src/go/pkg/mod/foo@v1/cmd/main.go'')
       = canonical env_nested ''/home/u/src/go'' @ ''/pkg/mod/'' @ ''foo@v1/cmd''"
    unfolding d canonical_env_nested c Clean_nested_roots by simp
  have p: "pathtomodule ''foo@v1/cmd'' = ''foo/cmd@v1''"
    by (simp add: pathtomodule_def Clean_def clean_elem.simps)
  show ?thesis by (intro conjI checkpaths_env_nested e p g)
qed

text \<open>
  C3, amended: when the canonical candidate directory is \<open><root>/pkg/mod/\<close> followed by a
  remainder, for a search root \<open><root>\<close> such that the directory is under neither the source
  tree nor the module cache of any root before it in the list, \<open>genpkgpath\<close> returns
  \<open>pathtomodule\<close> of the remainder. With the single root \<open>/root\<close>, the directory
  \<open>/root/pkg/mod/example.com/foo@v1.0.0/cmd/bar\<close> yields \<open>example.com/foo/cmd/bar@v1.0.0\<close>.
\<close>

theorem genpkgpath_module_cache:
  "(GOROOT env # getgopath env = pre @ root # post
      \<and> (\<forall>r \<in> set pre. \<not> under_src env (canonical env (Dir file)) r
                        \<and> \<not> under_mod env (canonical env (Dir file)) r)
      \<and> canonical env (Dir file) = canonical env root @ ''/pkg/mod/'' @ rest
    \<longrightarrow> genpkgpath env name (Dir file) = (pathtomodule rest, None))
   \<and> genpkgpath env_root name ''/root/pkg/mod/example.com/foo@v1.0.0/cmd/bar''
       = (''example.com/foo/cmd/bar@v1.0.0'', None)"
proof (intro conjI impI)
  let ?d = "canonical env (Dir file)"
  let ?c = "canonical env root"
  assume h: "GOROOT env # getgopath env = pre @ root # post
      \<and> (\<forall>r \<in> set pre. \<not> under_src env ?d r \<and> \<not> under_mod env ?d r)
      \<and> ?d = ?c @ ''/pkg/mod/'' @ rest"
  note h1 = h[THEN conjunct1] and h2 = h[THEN conjunct2, THEN conjunct1]
    and h3 = h[THEN conjunct2, THEN conjunct2]
  have cl: "cleaned ?d" by (intro canonical_cleaned Dir_cleaned)
  from h3 have d: "?d = (?c @ ''/pkg/mod/'') @ rest" by simp
  then have u: "under_mod env ?d root" unfolding under_mod_def by (metis prefixI)
  have ns: "\<not> under_src env ?d root"
  proof
    assume "under_src env ?d root"
    then obtain z where "?d = (?c @ ''/src/'') @ z"
      unfolding under_src_def by (auto simp: prefix_def)
    with h3 have "?c @ ''/pkg/mod/'' @ rest = ?c @ ''/src/'' @ z" by simp
    then show False by simp
  qed
  have dr: "drop (length (?c @ ''/pkg/mod/'')) ?d = rest"
    by (subst d) simp
  have "genpkgpath_loop env ?d (pre @ root # post) = genpkgpath_loop env ?d (root # post)"
    using cl h2 by (rule genpkgpath_loop_skip)
  also have "\<dots> = Some (pathtomodule rest)"
    unfolding genpkgpath_loop_cleaned[OF cl] using u ns dr by simp
  finally have "genpkgpath_loop env ?d (GOROOT env # getgopath env) = Some (pathtomodule rest)"
    unfolding h1 .
  then show "genpkgpath env name (Dir file) = (pathtomodule rest, None)"
    unfolding genpkgpath_unfold by simp
next
  show "genpkgpath env_root name ''/root/pkg/mod/example.com/foo@v1.0.0/cmd/bar''
       = (''example.com/foo/cmd/bar@v1.0.0'', None)"
    by (rule genpkgpath_example_mod)
qed

theorem genpkgpath_module_cache_witness:
  "genpkgpath env_nested ''foo'' (Dir ''/home/u/pkg/mod/foo@v1/cmd/main.go'') = (''foo/cmd@v1'', None)"
proof -
  have d: "Dir ''/home/u/pkg/mod/foo@v1/cmd/main.go'' = ''/home/u/pkg/mod/foo@v1/cmd''"
    by (simp add: Dir_def Clean_def clean_elem.simps)
  have c: "Clean ''/home/u/pkg/mod/foo@v1/cmd'' = ''/home/u/pkg/mod/foo@v1/cmd''"
    by (simp add: Clean_def clean_elem.simps)
  have 1: "GOROOT env_nested # getgopath env_nested = [''/usr/local/go''] @ ''/home/u'' # [''/home/u/src/go'']"
    unfolding checkpaths_env_nested by simp
  have 2: "\<forall>r \<in> set [''/usr/local/go'']. \<not> under_src env_nested (canonical env_nested (Dir ''/home/u/pkg/mod/foo@v1/cmd/main.go'')) r
             \<and> \<not> under_mod env_nested (canonical env_nested (Dir ''/home/u/pkg/mod/foo@v1/cmd/main.go'')) r"
    unfolding d canonical_env_nested c under_src_def under_mod_def
    by (simp add: Clean_nested_roots)
  have 3: "canonical env_nested (Dir ''/home/u/pkg/mod/foo@v1/cmd/main.go'')
           = canonical env_nested ''/home/u'' @ ''/pkg/mod/'' @ ''foo@v1/cmd''"
    unfolding d canonical_env_nested c Clean_nested_roots by simp
  have p: "pathtomodule ''foo@v1/cmd'' = ''foo/cmd@v1''"
    by (simp add: pathtomodule_def Clean_def clean_elem.simps)
  from genpkgpath_module_cache[THEN conjunct1, rule_format, OF conjI[OF 1 conjI[OF 2 3]], of "''foo''"]
  show ?thesis unfolding p .
qed

text \<open>
  C6, as the claim states it, fails: the directory as given contains \<open>/pkg/mod/\<close>, no search
  root matches and the single-candidate fallback fails, but \<open>/other/pkg\<close> is a symbolic link,
  the canonical directory has no such marker, and \<open>genpkgpath\<close> returns the error where the
  claim has \<open>example.com/foo@v2.0.0\<close>.
\<close>

theorem genpkgpath_module_marker_counterexample:
  "LastIndex ''/other/pkg/mod/example.com/foo@v2.0.0'' mod_path = Some 6
   \<and> pathtomodule (drop (6 + length mod_path) ''/other/pkg/mod/example.com/foo@v2.0.0'')
       = ''example.com/foo@v2.0.0''
   \<and> canonical env_link ''/other/pkg/mod/example.com/foo@v2.0.0'' = ''/data/cache/mod/example.com/foo@v2.0.0''
   \<and> genpkgpath_loop env_link ''/data/cache/mod/example.com/foo@v2.0.0''
        (GOROOT env_link # getgopath env_link) = None
   \<and> genpkgpath_loop env_link ''/other/pkg/mod/example.com/foo@v2.0.0''
        (GOROOT env_link # getgopath env_link) = None
   \<and> snd (guesspkg ''foo'' [''/data/cache/mod/example.com/foo@v2.0.0'']
             [''/data/cache/mod/example.com/foo@v2.0.0'']) = False
   \<and> snd (guesspkg ''foo'' [''/other/pkg/mod/example.com/foo@v2.0.0'']
             [''/other/pkg/mod/example.com/foo@v2.0.0'']) = False
   \<and> genpkgpath env_link ''foo'' ''/other/pkg/mod/example.com/foo@v2.0.0'' = ([], Some ErrGuessFail)"
proof -
  let ?r = "''/other/pkg/mod/example.com/foo@v2.0.0''"
  let ?d = "''/data/cache/mod/example.com/foo@v2.0.0''"
  have i: "LastIndex ?r mod_path = Some 6" by (simp add: mod_path_def)
  have p: "pathtomodule (drop (6 + length mod_path) ?r) = ''example.com/foo@v2.0.0''"
    by (simp add: mod_path_def pathtomodule_def)
  have c: "canonical env_link ?r = ?d"
    by (simp add: canonical_def EvalSymlinks_def env_link_def Clean_def clean_elem.simps)
  have cr: "canonical env_link ''/root'' = ''/root''"
    by (simp add: canonical_def EvalSymlinks_def env_link_def Clean_def clean_elem.simps)
  have roots: "GOROOT env_link # getgopath env_link = [''/root'', ''/root'']"
    by (simp add: env_link_def getgopath_def)
  have l: "genpkgpath_loop env_link ?d (GOROOT env_link # getgopath env_link) = None"
    unfolding roots genpkgpath_loop_step cr by simp
  have l': "genpkgpath_loop env_link ?r (GOROOT env_link # getgopath env_link) = None"
    unfolding roots genpkgpath_loop_step cr by simp
  have s: "\<not> Contains ?d src" "\<not> Contains ?r src" by (simp_all add: Contains_def src_def)
  have g: "snd (guesspkg ''foo'' [?d] [?d]) = False" "snd (guesspkg ''foo'' [?r] [?r]) = False"
    unfolding guesspkg_single candidate_match_def using s by simp_all
  have n: "LastIndex ?d mod_path = None" by (simp add: mod_path_def)
  have e: "genpkgpath env_link ''foo'' ?r = ([], Some ErrGuessFail)"
    unfolding genpkgpath_unfold c l candidate_match_def n using s by simp
  show ?thesis by (intro conjI i p c l l' g e)
qed

text \<open>
  C6, amended: when no search root matches the candidate directory and the
  single-candidate fallback fails, \<open>genpkgpath\<close> searches the canonical directory (the result
  of \<open>EvalSymlinks\<close> when that succeeds, the directory as given otherwise) for \<open>/pkg/mod/\<close>
  and returns \<open>pathtomodule\<close> of what follows the last occurrence. With no matching root,
  \<open>/other/pkg/mod/example.com/foo@v2.0.0\<close> yields \<open>example.com/foo@v2.0.0\<close>.
\<close>

theorem genpkgpath_module_marker:
  "((\<forall>r \<in> set (GOROOT env # getgopath env).
        \<not> under_src env (canonical env (Dir file)) r \<and> \<not> under_mod env (canonical env (Dir file)) r)
      \<and> snd (guesspkg name [canonical env (Dir file)] [canonical env (Dir file)]) = False
      \<and> LastIndex (canonical env (Dir file)) mod_path = Some i
    \<longrightarrow> genpkgpath env name (Dir file)
          = (pathtomodule (drop (i + length mod_path) (canonical env (Dir file))), None)
        \<and> (\<forall>p q. canonical env (Dir file) = p @ mod_path @ q \<longrightarrow> length p \<le> i))
   \<and> genpkgpath env_root name ''/other/pkg/mod/example.com/foo@v2.0.0''
       = (''example.com/foo@v2.0.0'', None)"
proof (intro conjI impI allI)
  let ?d = "canonical env (Dir file)"
  assume h: "(\<forall>r \<in> set (GOROOT env # getgopath env). \<not> under_src env ?d r \<and> \<not> under_mod env ?d r)
      \<and> snd (guesspkg name [?d] [?d]) = False
      \<and> LastIndex ?d mod_path = Some i"
  note h1 = h[THEN conjunct1] and h2 = h[THEN conjunct2, THEN conjunct1]
    and h3 = h[THEN conjunct2, THEN conjunct2]
  have cl: "cleaned ?d" by (intro canonical_cleaned Dir_cleaned)
  from cl h1 have l: "genpkgpath_loop env ?d (GOROOT env # getgopath env) = None"
    by (rule genpkgpath_loop_none)
  from h2 have m: "\<not> (candidate_match (''cmd/'' @ name) ?d \<or> candidate_match name ?d)"
    unfolding guesspkg_single by (auto split: if_splits)
  show "genpkgpath env name (Dir file) = (pathtomodule (drop (i + length mod_path) ?d), None)"
    unfolding genpkgpath_unfold l using m h3 by simp
  fix p q
  assume "?d = p @ mod_path @ q"
  with h3 show "length p \<le> i" by (rule LastIndex_greatest)
next
  show "genpkgpath env_root name ''/other/pkg/mod/example.com/foo@v2.0.0''
       = (''example.com/foo@v2.0.0'', None)"
    by (rule genpkgpath_example_other)
qed

theorem genpkgpath_module_marker_witness:
  "genpkgpath env_root ''foo'' (Dir ''/other/pkg/mod/example.com/foo@v2.0.0/main.go'')
   = (''example.com/foo@v2.0.0'', None)"
proof -
  let ?d = "''/other/pkg/mod/example.com/foo@v2.0.0''"
  have d: "Dir ''/other/pkg/mod/example.com/foo@v2.0.0/main.go'' = ?d"
    by (simp add: Dir_def Clean_def clean_elem.simps)
  have 1: "\<forall>r \<in> set (GOROOT env_root # getgopath env_root).
             \<not> under_src env_root (canonical env_root (Dir ''/other/pkg/mod/example.com/foo@v2.0.0/main.go'')) r
           \<and> \<not> under_mod env_root (canonical env_root (Dir ''/other/pkg/mod/example.com/foo@v2.0.0/main.go'')) r"
    unfolding d checkpaths_env_root canonical_env_root Clean_other under_src_def under_mod_def
    by (simp add: Clean_root)
  have s: "\<not> Contains ?d src" by (simp add: Contains_def src_def)
  have 2: "snd (guesspkg ''foo'' [canonical env_root (Dir ''/other/pkg/mod/example.com/foo@v2.0.0/main.go'')]
                  [canonical env_root (Dir ''/other/pkg/mod/example.com/foo@v2.0.0/main.go'')]) = False"
    unfolding d canonical_env_root Clean_other guesspkg_single candidate_match_def using s by simp
  have 3: "LastIndex (canonical env_root (Dir ''/other/pkg/mod/example.com/foo@v2.0.0/main.go'')) mod_path = Some 6"
    unfolding d canonical_env_root Clean_other by (simp add: mod_path_def)
  have p: "pathtomodule (drop (6 + length mod_path) ?d) = ''example.com/foo@v2.0.0''"
    by (simp add: mod_path_def pathtomodule_def)
  note w = genpkgpath_module_marker[THEN conjunct1, rule_format, OF conjI[OF 1 conjI[OF 2 3]], THEN conjunct1]
  show ?thesis using w unfolding d canonical_env_root Clean_other p .
qed

end
